theory Spec2Isabelle
  imports Main
begin

section \<open>Credentials\<close>

text \<open>
  \<^verbatim>\<open>auth.Credentials\<close> is a value type with an access key and a secret key.
  The zero value has both fields empty; it is what a Go map returns for a missing key.
\<close>

record Credentials =
  AccessKey :: string
  SecretKey :: string

definition zeroCredentials :: Credentials where
  "zeroCredentials = \<lparr>AccessKey = [], SecretKey = []\<rparr>"

text \<open>
  Modelled from the spec: \<^verbatim>\<open>IsValid\<close> is declared in pkg/auth, which is not part of
  cmd/config-current.go. The specification gives it as "true iff both fields are
  non-empty and meet format constraints defined by the collaborator"; the format
  constraint is the parameter \<open>fmt\<close>.
\<close>

definition IsValid :: "(Credentials \<Rightarrow> bool) \<Rightarrow> Credentials \<Rightarrow> bool" where
  "IsValid fmt cred \<longleftrightarrow> AccessKey cred \<noteq> [] \<and> SecretKey cred \<noteq> [] \<and> fmt cred"

text \<open>
  A format constraint for concrete inputs: lower bounds on the lengths of the two keys.
  It is used only where a theorem is evaluated at an example.
\<close>

definition lengthFormat :: "Credentials \<Rightarrow> bool" where
  "lengthFormat cred \<longleftrightarrow> 5 \<le> length (AccessKey cred) \<and> 8 \<le> length (SecretKey cred)"


section \<open>The configuration store\<close>

record storageClass =
  Scheme :: string
  Parity :: int

record storageClassConfig =
  Standard :: storageClass
  RRS :: storageClass

text \<open>
  The notification block holds, for each kind of target, a map from target ID to the
  target's configuration. The configurations are declared in other files and are opaque
  here (the type variable \<open>'t\<close>).
\<close>

record 't notifier =
  AMQP :: "string \<rightharpoonup> 't"
  MQTT :: "string \<rightharpoonup> 't"
  ElasticSearch :: "string \<rightharpoonup> 't"
  Redis :: "string \<rightharpoonup> 't"
  NATS :: "string \<rightharpoonup> 't"
  PostgreSQL :: "string \<rightharpoonup> 't"
  MySQL :: "string \<rightharpoonup> 't"
  Kafka :: "string \<rightharpoonup> 't"
  Webhook :: "string \<rightharpoonup> 't"

text \<open>
  \<^verbatim>\<open>serverConfig\<close> with the fields cmd/config-current.go reads and writes. \<open>Notify\<close> is
  a pointer (\<open>None\<close> is nil). \<open>Bucket\<close> is a Go map, which is nil (\<open>None\<close>) until it is
  made: \<^verbatim>\<open>newServerConfig\<close> makes it, \<^verbatim>\<open>getValidConfig\<close> does not. A nil map reads
  like an empty one (\<open>entries\<close>), and an assignment to an entry of it panics. The
  credential cache is a Go map too; \<^verbatim>\<open>newConfig\<close> and \<^verbatim>\<open>loadConfig\<close> make it whenever
  they publish a store, and it is modelled as allocated. The locks are not modelled:
  every method is taken as one atomic step.
\<close>

record 't serverConfig =
  Version :: string
  Credential :: Credentials
  Region :: string
  Browser :: bool
  Domain :: string
  StorageClass :: storageClassConfig
  Notify :: "'t notifier option"
  Bucket :: "(string \<rightharpoonup> Credentials) option"

type_synonym credCache = "string \<rightharpoonup> Credentials"

text \<open>Indexing a Go map of credentials: the zero value when the key is absent.\<close>

definition index :: "(string \<rightharpoonup> Credentials) \<Rightarrow> string \<Rightarrow> Credentials" where
  "index m k = (case m k of None \<Rightarrow> zeroCredentials | Some cred \<Rightarrow> cred)"

text \<open>What a Go map of credentials holds when it is read: nothing when it is nil.\<close>

definition entries :: "(string \<rightharpoonup> Credentials) option \<Rightarrow> (string \<rightharpoonup> Credentials)" where
  "entries m = (case m of None \<Rightarrow> Map.empty | Some es \<Rightarrow> es)"

text \<open>The message of the run-time panic for a write to a nil map.\<close>

definition nilMapPanic :: string where
  "nilMapPanic = ''assignment to entry in nil map''"

text \<open>
  \<^verbatim>\<open>for k, v := range m\<close> visits every entry of the map once, in an order the
  language leaves open. The loops below take the entries in the order of the visit as
  an argument \<open>es\<close>; \<open>rangeOrder es m\<close> says that \<open>es\<close> is such an enumeration of \<open>m\<close>.
\<close>

definition rangeOrder :: "('k \<times> 'v) list \<Rightarrow> ('k \<rightharpoonup> 'v) \<Rightarrow> bool" where
  "rangeOrder es m \<longleftrightarrow> distinct (map fst es) \<and> map_of es = m"

text \<open>
  A method of \<^verbatim>\<open>*serverConfig\<close> acts on its receiver and on the global
  \<^verbatim>\<open>globalServerCredCache\<close>: it takes both and returns both, after its result if it has
  one. \<^verbatim>\<open>SetCredentialForBucket\<close> can panic: its result is then \<open>Inl\<close> of the message,
  with the receiver and the cache as the panic leaves them.
\<close>

definition GetVersion :: "'t serverConfig \<times> credCache \<Rightarrow> string" where
  "GetVersion sc = Version (fst sc)"

definition SetRegion ::
  "string \<Rightarrow> 't serverConfig \<times> credCache \<Rightarrow> 't serverConfig \<times> credCache" where
  "SetRegion region sc = (case sc of (s, cache) \<Rightarrow> (s\<lparr>Region := region\<rparr>, cache))"

definition GetRegion :: "'t serverConfig \<times> credCache \<Rightarrow> string" where
  "GetRegion sc = Region (fst sc)"

definition SetCredential ::
  "Credentials \<Rightarrow> 't serverConfig \<times> credCache
    \<Rightarrow> Credentials \<times> 't serverConfig \<times> credCache" where
  "SetCredential creds sc =
     (case sc of (s, cache) \<Rightarrow>
        let prevCred = Credential s;
            s = s\<lparr>Credential := creds\<rparr>
        in (prevCred, s, cache))"

definition GetCredential :: "'t serverConfig \<times> credCache \<Rightarrow> Credentials" where
  "GetCredential sc = Credential (fst sc)"

definition SetCredentialForBucket ::
  "(Credentials \<Rightarrow> bool) \<Rightarrow> string \<Rightarrow> Credentials \<Rightarrow> 't serverConfig \<times> credCache
    \<Rightarrow> (string + Credentials) \<times> 't serverConfig \<times> credCache" where
  "SetCredentialForBucket fmt bucket creds sc =
     (case sc of (s, cache) \<Rightarrow>
        if bucket = [] then
          let prevCred = Credential s;
              s = s\<lparr>Credential := creds\<rparr>
          in (Inr prevCred, s, cache)
        else
          let prevCred = index (entries (Bucket s)) bucket;
              (prevCred, cache) =
                (if IsValid fmt prevCred then (prevCred, cache(AccessKey prevCred := None))
                 else (Credential s, cache))
          in case Bucket s of
               None \<Rightarrow> (Inl nilMapPanic, s, cache)
             | Some m \<Rightarrow>
                 let s = s\<lparr>Bucket := Some (m(bucket \<mapsto> creds))\<rparr>;
                     cache = cache(AccessKey creds \<mapsto> creds)
                 in (Inr prevCred, s, cache))"

definition GetCredentialForBucket ::
  "(Credentials \<Rightarrow> bool) \<Rightarrow> string \<Rightarrow> 't serverConfig \<times> credCache \<Rightarrow> Credentials" where
  "GetCredentialForBucket fmt bucket sc =
     (case sc of (s, cache) \<Rightarrow>
        let cred = index (entries (Bucket s)) bucket
        in if \<not> IsValid fmt cred then Credential s else cred)"

text \<open>The loop of \<^verbatim>\<open>GetBucketForKey\<close>; \<open>None\<close> when it ends without a match.\<close>

fun huntBucket :: "(string \<times> Credentials) list \<Rightarrow> string \<Rightarrow> string option" where
  "huntBucket [] key = None"
| "huntBucket ((bucket, creds) # rest) key =
     (if AccessKey creds = key then Some bucket else huntBucket rest key)"

definition GetBucketForKey ::
  "(string \<times> Credentials) list \<Rightarrow> string \<Rightarrow> 't serverConfig \<times> credCache \<Rightarrow> string" where
  "GetBucketForKey es key sc =
     (case sc of (s, cache) \<Rightarrow>
        if key = AccessKey (Credential s) then []
        else (case huntBucket es key of Some bucket \<Rightarrow> bucket | None \<Rightarrow> []))"

text \<open>
  \<^verbatim>\<open>GetCredentialForKey\<close> has four return statements; the model returns, with the
  credential and the cache, which of them was taken.
\<close>

datatype tier = FromRoot | FromCache | FromScan | NoMatch

text \<open>The loop of \<^verbatim>\<open>GetCredentialForKey\<close>, with its write to the cache.\<close>

fun scanBuckets ::
  "(string \<times> Credentials) list \<Rightarrow> string \<Rightarrow> credCache \<Rightarrow> (Credentials \<times> credCache) option" where
  "scanBuckets [] key cache = None"
| "scanBuckets ((bucket, cred) # rest) key cache =
     (if AccessKey cred = key then Some (cred, cache(AccessKey cred \<mapsto> cred))
      else scanBuckets rest key cache)"

definition GetCredentialForKey ::
  "(Credentials \<Rightarrow> bool) \<Rightarrow> (string \<times> Credentials) list \<Rightarrow> string
    \<Rightarrow> 't serverConfig \<times> credCache \<Rightarrow> (Credentials \<times> tier) \<times> credCache" where
  "GetCredentialForKey fmt es key sc =
     (case sc of (s, cache) \<Rightarrow>
        let cred = Credential s
        in if AccessKey cred = key then ((cred, FromRoot), cache)
           else
             let cred = index cache key
             in if IsValid fmt cred \<and> AccessKey cred = key then ((cred, FromCache), cache)
                else (case scanBuckets es key cache of
                        Some (cred, cache) \<Rightarrow> ((cred, FromScan), cache)
                      | None \<Rightarrow> ((zeroCredentials, NoMatch), cache)))"

definition SetBrowser ::
  "bool \<Rightarrow> 't serverConfig \<times> credCache \<Rightarrow> 't serverConfig \<times> credCache" where
  "SetBrowser b sc = (case sc of (s, cache) \<Rightarrow> (s\<lparr>Browser := b\<rparr>, cache))"

definition SetStorageClass ::
  "storageClass \<Rightarrow> storageClass \<Rightarrow> 't serverConfig \<times> credCache
    \<Rightarrow> 't serverConfig \<times> credCache" where
  "SetStorageClass standardClass rrsClass sc =
     (case sc of (s, cache) \<Rightarrow>
        let s = s\<lparr>StorageClass := (StorageClass s)\<lparr>Standard := standardClass\<rparr>\<rparr>;
            s = s\<lparr>StorageClass := (StorageClass s)\<lparr>RRS := rrsClass\<rparr>\<rparr>
        in (s, cache))"

definition GetBrowser :: "'t serverConfig \<times> credCache \<Rightarrow> bool" where
  "GetBrowser sc = Browser (fst sc)"


section \<open>The JSON scope validator\<close>

text \<open>A Go \<^verbatim>\<open>error\<close> is modelled by its message.\<close>

type_synonym error = string

text \<open>
  A parsed document, as \<^verbatim>\<open>gjson.Parse\<close> presents it: an object keeps its members in
  the order of the text, repeated keys included. \<open>Missing\<close> is the Result of a value
  that does not exist. A number is kept as its text.
\<close>

datatype json =
    Missing
  | JNull
  | JFalse
  | JTrue
  | JNumber string
  | JString string
  | JArray "json list"
  | JObject "(string \<times> json) list"

text \<open>
  The Results that occur as keys: a String Result, or the zero Result, whose Type is
  Null. \<open>keyString\<close> is \<^verbatim>\<open>Result.String()\<close> on them.
\<close>

datatype key = KNull | KString string

fun keyString :: "key \<Rightarrow> string" where
  "keyString KNull = []"
| "keyString (KString s) = s"

text \<open>
  Modelled from the spec: \<^verbatim>\<open>Result.ForEach\<close> belongs to the gjson library, which is
  not part of cmd/config-current.go. The pairs it passes to the iterator, in order: for
  an object, each member with its key as a String Result; an array and a scalar
  "contribute no keys", so an array passes each element and a scalar passes itself,
  both with the zero Result as key; a value that does not exist passes nothing. This
  is the library's documented contract (for an array "the iterator will only pass the
  value of each item"), and the test \<^verbatim>\<open>k.Type != gjson.Null\<close> in the code below is
  there for such keys.
\<close>

fun ForEach :: "json \<Rightarrow> (key \<times> json) list" where
  "ForEach Missing = []"
| "ForEach (JObject members) = map (\<lambda>(k, v). (KString k, v)) members"
| "ForEach (JArray items) = map (\<lambda>v. (KNull, v)) items"
| "ForEach v = [(KNull, v)]"

text \<open>
  \<^verbatim>\<open>keysOcc\<close>, the occurrence count of the keys of one scope, as a list of entries with
  distinct keys; \<open>increment k\<close> is \<^verbatim>\<open>keysOcc[k]++\<close>.
\<close>

type_synonym keysOcc = "(string \<times> int) list"

fun increment :: "string \<Rightarrow> keysOcc \<Rightarrow> keysOcc" where
  "increment k [] = [(k, 1)]"
| "increment k ((k', n) # rest) =
     (if k' = k then (k', n + 1) # rest else (k', n) # increment k rest)"

text \<open>The loop over \<^verbatim>\<open>keysOcc\<close> that looks for a count above one.\<close>

fun duplicated :: "keysOcc \<Rightarrow> string option" where
  "duplicated [] = None"
| "duplicated ((k, v) # rest) = (if v > 1 then Some k else duplicated rest)"

text \<open>The measure for the recursion of the validator.\<close>

definition weight :: "(key \<times> json) list \<Rightarrow> nat" where
  "weight kvs = sum_list (map (\<lambda>(k, v). if k = KNull then 1 else 2 * size v + 3) kvs)"

text \<open>
  \<^verbatim>\<open>doCheckDupJSONKeys\<close> and the closure it hands to \<^verbatim>\<open>ForEach\<close>. \<open>iterator\<close> runs
  the closure over the pairs that are left, on the closure's variables \<^verbatim>\<open>keysOcc\<close> and
  \<^verbatim>\<open>checkErr\<close>, and stops when the closure returns false. The order in which the last
  loop visits \<^verbatim>\<open>keysOcc\<close> is left open by the language: \<open>ord\<close> gives it.
\<close>

function doCheckDupJSONKeys :: "(keysOcc \<Rightarrow> keysOcc) \<Rightarrow> key \<Rightarrow> json \<Rightarrow> error option"
  and iterator ::
    "(keysOcc \<Rightarrow> keysOcc) \<Rightarrow> (key \<times> json) list \<Rightarrow> keysOcc \<times> error option
      \<Rightarrow> keysOcc \<times> error option"
where
  "doCheckDupJSONKeys ord key value =
     (case iterator ord (ForEach value) ([], None) of
        (keysOcc, Some checkErr) \<Rightarrow> Some (keyString key @ '' => '' @ checkErr)
      | (keysOcc, None) \<Rightarrow>
          (case duplicated (ord keysOcc) of
             Some k \<Rightarrow> Some (keyString key @ '' => `'' @ k @ ''` entry is duplicated'')
           | None \<Rightarrow> None))"
| "iterator ord [] st = st"
| "iterator ord ((k, v) # rest) (keysOcc, checkErr) =
     (if k \<noteq> KNull then
        (case doCheckDupJSONKeys ord k v of
           None \<Rightarrow> iterator ord rest (increment (keyString k) keysOcc, None)
         | Some e \<Rightarrow> (increment (keyString k) keysOcc, Some e))
      else if checkErr = None then iterator ord rest (keysOcc, checkErr)
      else (keysOcc, checkErr))"
  by pat_completeness auto
termination
proof -
  have weight_ForEach: "weight (ForEach v) \<le> 2 * size v + 1" for v
  proof (cases v)
    case (JArray items)
    have "weight (map (\<lambda>v. (KNull, v)) items) = length items"
      by (induction items) (simp_all add: weight_def)
    moreover have "length items \<le> size_list size items"
      by (induction items) simp_all
    ultimately show ?thesis using JArray by simp
  next
    case (JObject members)
    have "weight (map (\<lambda>(k, v). (KString k, v)) members)
            \<le> 2 * size_list (size_prod (\<lambda>_. 0) size) members"
      by (induction members) (auto simp: weight_def)
    then show ?thesis using JObject by simp
  qed (simp_all add: weight_def)
  show ?thesis
  proof (relation "measure (\<lambda>x. case x of
            Inl (ord, key, value) \<Rightarrow> weight (ForEach value) + 1
          | Inr (ord, kvs, st) \<Rightarrow> weight kvs)", goal_cases)
    case 1
    show ?case by simp
  next
    case 2
    show ?case by simp
  next
    case (3 ord k v rest keysOcc checkErr)
    then show ?case using weight_ForEach[of v] by (simp add: weight_def)
  next
    case 4
    then show ?case by (simp add: weight_def)
  next
    case 5
    then show ?case by (simp add: weight_def)
  qed
qed

declare doCheckDupJSONKeys.simps [simp del]

text \<open>
  \<^verbatim>\<open>checkDupJSONKeys\<close> on the parsed document \<open>config\<close>; \<open>rootName\<close> is the constant
  \<^verbatim>\<open>minioConfigFile\<close>, declared in another file.
\<close>

definition checkDupJSONKeys :: "(keysOcc \<Rightarrow> keysOcc) \<Rightarrow> string \<Rightarrow> json \<Rightarrow> error option" where
  "checkDupJSONKeys ord rootName config = doCheckDupJSONKeys ord (KString rootName) config"

text \<open>
  What the order of a \<^verbatim>\<open>range\<close> loop may be: the same entries. And what the
  specification calls a document with no two same-named keys in any single object scope.
\<close>

definition rangeChoice :: "(keysOcc \<Rightarrow> keysOcc) \<Rightarrow> bool" where
  "rangeChoice ord \<longleftrightarrow> (\<forall>m. set (ord m) = set m)"

fun scopesDistinct :: "json \<Rightarrow> bool" where
  "scopesDistinct (JObject members) =
     (distinct (map fst members) \<and> list_all (\<lambda>(k, v). scopesDistinct v) members)"
| "scopesDistinct (JArray items) = list_all scopesDistinct items"
| "scopesDistinct v = True"

text \<open>
  The occurrence count the closure has built when it has run over all of \<open>kvs\<close>
  without an error.
\<close>

fun countKeys :: "(key \<times> json) list \<Rightarrow> keysOcc \<Rightarrow> keysOcc" where
  "countKeys [] occ = occ"
| "countKeys ((k, v) # rest) occ =
     countKeys rest (if k \<noteq> KNull then increment (keyString k) occ else occ)"


section \<open>The lifecycle of the published store\<close>

definition serverConfigVersion :: string where
  "serverConfigVersion = ''23''"

text \<open>The global variables this file reads and writes.\<close>

record 't globals =
  globalServerConfig :: "'t serverConfig option"
  globalServerCredCache :: credCache
  globalActiveCred :: Credentials
  globalIsEnvCreds :: bool
  globalIsBrowserEnabled :: bool
  globalIsEnvBrowser :: bool
  globalServerRegion :: string
  globalIsEnvRegion :: bool
  globalDomainName :: string
  globalIsEnvDomainName :: bool
  globalIsStorageClass :: bool
  globalStandardStorageClass :: storageClass
  globalRRStorageClass :: storageClass

text \<open>
  What other files and packages provide: constants, the persistence functions of
  pkg/quick and ioutil with the file system they read folded in, the parser of gjson,
  the validators, the generator of fresh credentials, and the zero value of a target
  configuration. They are parameters of the functions below.
\<close>

record 't collaborators =
  credentialFormat :: "Credentials \<Rightarrow> bool"
  getConfigFile :: string
  minioConfigFile :: string
  globalMinioDefaultRegion :: string
  quickLoad :: "string \<Rightarrow> 't serverConfig \<Rightarrow> error + 't serverConfig"
  quickSave :: "string \<Rightarrow> 't serverConfig \<Rightarrow> error option"
  ioutilReadFile :: "string \<Rightarrow> error + string"
  gjsonParse :: "string \<Rightarrow> json"
  rangeKeysOcc :: "keysOcc \<Rightarrow> keysOcc"
  notifyValidate :: "'t notifier option \<Rightarrow> error option"
  validateRRSParity :: "int \<Rightarrow> int \<Rightarrow> error option"
  validateSSParity :: "int \<Rightarrow> int \<Rightarrow> error option"
  MustGetNewCredentials :: Credentials
  zeroTarget :: 't

text \<open>
  \<^verbatim>\<open>GetStorageClass\<close> writes the global \<^verbatim>\<open>globalIsStorageClass\<close>. \<^verbatim>\<open>fatalIf\<close> ends
  the process when its error is not nil: the result is then \<open>None\<close>.
\<close>

definition GetStorageClass ::
  "'t collaborators \<Rightarrow> 't serverConfig \<Rightarrow> 't globals
    \<Rightarrow> ((storageClass \<times> storageClass) \<times> 't globals) option" where
  "GetStorageClass c s g =
     (let ssc = Standard (StorageClass s);
          rrsc = RRS (StorageClass s)
      in case (if Scheme rrsc \<noteq> [] then
                 (case validateRRSParity c (Parity rrsc) (Parity ssc) of
                    Some err \<Rightarrow> None
                  | None \<Rightarrow> Some (g\<lparr>globalIsStorageClass := True\<rparr>))
               else Some g) of
           None \<Rightarrow> None
         | Some g \<Rightarrow>
             (case (if Scheme ssc \<noteq> [] then
                      (case validateSSParity c (Parity ssc) (Parity rrsc) of
                         Some err \<Rightarrow> None
                       | None \<Rightarrow> Some (g\<lparr>globalIsStorageClass := True\<rparr>))
                    else Some g) of
                None \<Rightarrow> None
              | Some g \<Rightarrow> Some ((Standard (StorageClass s), RRS (StorageClass s)), g)))"

definition Save :: "'t collaborators \<Rightarrow> 't serverConfig \<Rightarrow> error option" where
  "Save c s = quickSave c (getConfigFile c) s"

definition zeroStorageClass :: storageClass where
  "zeroStorageClass = \<lparr>Scheme = [], Parity = 0\<rparr>"

definition newServerConfig :: "'t collaborators \<Rightarrow> 't serverConfig" where
  "newServerConfig c =
     \<lparr>Version = serverConfigVersion,
      Credential = MustGetNewCredentials c,
      Region = globalMinioDefaultRegion c,
      Browser = True,
      Domain = [],
      StorageClass = \<lparr>Standard = zeroStorageClass, RRS = zeroStorageClass\<rparr>,
      Notify = Some
        \<lparr>AMQP = [''1'' \<mapsto> zeroTarget c],
         MQTT = [''1'' \<mapsto> zeroTarget c],
         ElasticSearch = [''1'' \<mapsto> zeroTarget c],
         Redis = [''1'' \<mapsto> zeroTarget c],
         NATS = [''1'' \<mapsto> zeroTarget c],
         PostgreSQL = [''1'' \<mapsto> zeroTarget c],
         MySQL = [''1'' \<mapsto> zeroTarget c],
         Kafka = [''1'' \<mapsto> zeroTarget c],
         Webhook = [''1'' \<mapsto> zeroTarget c]\<rparr>,
      Bucket = Some Map.empty\<rparr>"

text \<open>
  The overrides \<^verbatim>\<open>newConfig\<close> and \<^verbatim>\<open>loadConfig\<close> apply to the store they are about to
  publish; the setters run against the cache of that moment.
\<close>

definition applyEnv ::
  "'t globals \<Rightarrow> 't serverConfig \<times> credCache \<Rightarrow> 't serverConfig \<times> credCache" where
  "applyEnv g sc =
     (let sc = (if globalIsEnvCreds g then snd (SetCredential (globalActiveCred g) sc) else sc);
          sc = (if globalIsEnvBrowser g then SetBrowser (globalIsBrowserEnabled g) sc else sc);
          sc = (if globalIsEnvRegion g then SetRegion (globalServerRegion g) sc else sc);
          sc = (if globalIsEnvDomainName g
                then (case sc of (s, cache) \<Rightarrow> (s\<lparr>Domain := globalDomainName g\<rparr>, cache))
                else sc);
          sc = (if globalIsStorageClass g
                then SetStorageClass (globalStandardStorageClass g) (globalRRStorageClass g) sc
                else sc)
      in sc)"

definition newConfig :: "'t collaborators \<Rightarrow> 't globals \<Rightarrow> error option \<times> 't globals" where
  "newConfig c g =
     (let srvCfg = newServerConfig c;
          (srvCfg, cache) = applyEnv g (srvCfg, globalServerCredCache g);
          g = g\<lparr>globalServerCredCache := cache\<rparr>;
          g = g\<lparr>globalServerConfig := Some srvCfg\<rparr>;
          g = g\<lparr>globalServerCredCache := Map.empty\<rparr>
      in (Save c srvCfg, g))"

text \<open>
  The message of \<^verbatim>\<open>fmt.Errorf\<close> in \<^verbatim>\<open>getValidConfig\<close>; its quotation marks are the
  three-byte characters U+2018 and U+2019.
\<close>

definition versionMismatch :: "string \<Rightarrow> string \<Rightarrow> error" where
  "versionMismatch expected got =
     ''configuration version mismatch. Expected: '' @ [CHR 0xE2, CHR 0x80, CHR 0x98] @ expected
       @ [CHR 0xE2, CHR 0x80, CHR 0x99] @ '', Got: '' @ [CHR 0xE2, CHR 0x80, CHR 0x98] @ got
       @ [CHR 0xE2, CHR 0x80, CHR 0x99]"

text \<open>
  The struct \<^verbatim>\<open>getValidConfig\<close> hands to \<^verbatim>\<open>quick.Load\<close>: the region and the browser
  flag are set, every other field has its zero value.
\<close>

definition blankConfig :: "'t collaborators \<Rightarrow> 't serverConfig" where
  "blankConfig c =
     \<lparr>Version = [], Credential = zeroCredentials,
      Region = globalMinioDefaultRegion c, Browser = True, Domain = [],
      StorageClass = \<lparr>Standard = zeroStorageClass, RRS = zeroStorageClass\<rparr>,
      Notify = None, Bucket = None\<rparr>"

definition getValidConfig :: "'t collaborators \<Rightarrow> 't globals \<Rightarrow> error + 't serverConfig" where
  "getValidConfig c g =
     (let srvCfg = blankConfig c;
          configFile = getConfigFile c
      in case quickLoad c configFile srvCfg of
           Inl err \<Rightarrow> Inl err
         | Inr srvCfg \<Rightarrow>
             if Version srvCfg \<noteq> serverConfigVersion
             then Inl (versionMismatch serverConfigVersion (Version srvCfg))
             else
               (case ioutilReadFile c configFile of
                  Inl err \<Rightarrow> Inl err
                | Inr jsonBytes \<Rightarrow>
                    (case checkDupJSONKeys (rangeKeysOcc c) (minioConfigFile c)
                            (gjsonParse c jsonBytes) of
                       Some err \<Rightarrow> Inl err
                     | None \<Rightarrow>
                         if \<not> globalIsEnvCreds g
                            \<and> \<not> IsValid (credentialFormat c) (Credential srvCfg)
                         then Inl (''invalid credential in config file '' @ configFile)
                         else
                           (case notifyValidate c (Notify srvCfg) of
                              Some err \<Rightarrow> Inl err
                            | None \<Rightarrow> Inr srvCfg))))"

text \<open>
  \<^verbatim>\<open>loadConfig\<close>: \<open>None\<close> when \<^verbatim>\<open>fatalIf\<close> ends the process, otherwise the error
  returned (\<open>None\<close> is nil) and the globals.
\<close>

definition loadConfig ::
  "'t collaborators \<Rightarrow> 't globals \<Rightarrow> (error option \<times> 't globals) option" where
  "loadConfig c g =
     (case getValidConfig c g of
        Inl err \<Rightarrow> Some (Some err, g)
      | Inr srvCfg \<Rightarrow>
          let (srvCfg, cache) = applyEnv g (srvCfg, globalServerCredCache g);
              g = g\<lparr>globalServerCredCache := cache\<rparr>;
              g = g\<lparr>globalServerCredCache := Map.empty\<rparr>;
              g = g\<lparr>globalServerConfig := Some srvCfg\<rparr>;
              sc = (srvCfg, globalServerCredCache g);
              g = (if \<not> globalIsEnvCreds g then g\<lparr>globalActiveCred := GetCredential sc\<rparr> else g);
              g = (if \<not> globalIsEnvBrowser g then g\<lparr>globalIsBrowserEnabled := GetBrowser sc\<rparr>
                   else g);
              g = (if \<not> globalIsEnvRegion g then g\<lparr>globalServerRegion := GetRegion sc\<rparr> else g);
              g = (if \<not> globalIsEnvDomainName g then g\<lparr>globalDomainName := Domain srvCfg\<rparr>
                   else g)
          in if \<not> globalIsStorageClass g then
               (case GetStorageClass c srvCfg g of
                  None \<Rightarrow> None
                | Some ((standard, rrs), g) \<Rightarrow>
                    Some (None, g\<lparr>globalStandardStorageClass := standard,
                                 globalRRStorageClass := rrs\<rparr>))
             else Some (None, g))"


section \<open>The invariant of the credential cache\<close>

text \<open>
  The invariant as the specification words it: every entry of the cache is the root
  credential or a value of the bucket map.
\<close>

definition cacheConsistent :: "'t serverConfig \<times> credCache \<Rightarrow> bool" where
  "cacheConsistent sc =
     (case sc of (s, cache) \<Rightarrow>
        \<forall>k cred. cache k = Some cred \<longrightarrow> cred = Credential s \<or> cred \<in> ran (entries (Bucket s)))"

text \<open>
  The invariant the code keeps: every entry of the cache that is a valid credential is
  stored under its own access key and is the root credential or a value of the bucket
  map.
\<close>

definition validEntriesCurrent ::
  "(Credentials \<Rightarrow> bool) \<Rightarrow> 't serverConfig \<times> credCache \<Rightarrow> bool" where
  "validEntriesCurrent fmt sc =
     (case sc of (s, cache) \<Rightarrow>
        \<forall>k cred. cache k = Some cred \<and> IsValid fmt cred \<longrightarrow>
          AccessKey cred = k \<and> (cred = Credential s \<or> cred \<in> ran (entries (Bucket s))))"

definition publishedConsistent :: "(Credentials \<Rightarrow> bool) \<Rightarrow> 't globals \<Rightarrow> bool" where
  "publishedConsistent fmt g =
     (case globalServerConfig g of
        None \<Rightarrow> True
      | Some s \<Rightarrow> validEntriesCurrent fmt (s, globalServerCredCache g))"


section \<open>Example inputs\<close>

definition rootCred :: Credentials where
  "rootCred = \<lparr>AccessKey = ''rootaccess'', SecretKey = ''rootsecret''\<rparr>"

definition credA :: Credentials where
  "credA = \<lparr>AccessKey = ''accessA'', SecretKey = ''secretkeyA''\<rparr>"

definition credB :: Credentials where
  "credB = \<lparr>AccessKey = ''accessB'', SecretKey = ''secretkeyB''\<rparr>"

text \<open>A credential with an empty secret key: invalid under every format constraint.\<close>

definition credI :: Credentials where
  "credI = \<lparr>AccessKey = ''accessI'', SecretKey = []\<rparr>"

definition exampleStore :: "unit serverConfig" where
  "exampleStore =
     \<lparr>Version = ''23'', Credential = rootCred, Region = ''us-east-1'', Browser = True,
      Domain = [], StorageClass = \<lparr>Standard = zeroStorageClass, RRS = zeroStorageClass\<rparr>,
      Notify = None, Bucket = Some Map.empty\<rparr>"

text \<open>
  Collaborators for a configuration file that loads as \<open>loaded\<close>: reading and parsing
  succeed, the document is an empty object, and every validator accepts.
\<close>

definition exampleCollaborators :: "error + unit serverConfig \<Rightarrow> unit collaborators" where
  "exampleCollaborators loaded =
     \<lparr>credentialFormat = lengthFormat,
      getConfigFile = ''/etc/minio/config.json'',
      minioConfigFile = ''config.json'',
      globalMinioDefaultRegion = ''us-east-1'',
      quickLoad = (\<lambda>path srvCfg. loaded),
      quickSave = (\<lambda>path srvCfg. None),
      ioutilReadFile = (\<lambda>path. Inr ''{}''),
      gjsonParse = (\<lambda>text. JObject []),
      rangeKeysOcc = id,
      notifyValidate = (\<lambda>n. None),
      validateRRSParity = (\<lambda>parity other. None),
      validateSSParity = (\<lambda>parity other. None),
      MustGetNewCredentials = credA,
      zeroTarget = ()\<rparr>"

text \<open>
  \<^verbatim>\<open>quick.Load\<close> on a file that gives the version and the root credential and has no
  entry for the bucket map: the decoder sets the fields the file gives and leaves the
  others of the struct it was handed as they are.
\<close>

definition loadWithoutBucket :: "string \<Rightarrow> unit serverConfig \<Rightarrow> string + unit serverConfig" where
  "loadWithoutBucket path srvCfg = Inr (srvCfg\<lparr>Version := ''23'', Credential := rootCred\<rparr>)"

definition exampleGlobals :: "unit globals" where
  "exampleGlobals =
     \<lparr>globalServerConfig = Some (exampleStore\<lparr>Bucket := Some [''b1'' \<mapsto> credA]\<rparr>),
      globalServerCredCache = [''accessA'' \<mapsto> credA],
      globalActiveCred = rootCred,
      globalIsEnvCreds = False,
      globalIsBrowserEnabled = True,
      globalIsEnvBrowser = False,
      globalServerRegion = ''us-east-1'',
      globalIsEnvRegion = False,
      globalDomainName = [],
      globalIsEnvDomainName = False,
      globalIsStorageClass = False,
      globalStandardStorageClass = zeroStorageClass,
      globalRRStorageClass = zeroStorageClass\<rparr>"


section \<open>Properties of the store's accessors\<close>

lemma index_Some: "m k = Some cred \<Longrightarrow> index m k = cred"
  by (simp add: index_def)

lemma zeroCredentials_invalid: "\<not> IsValid fmt zeroCredentials"
  by (simp add: IsValid_def zeroCredentials_def)

lemma index_valid_present: "IsValid fmt (index m k) \<longleftrightarrow> (\<exists>p. m k = Some p \<and> IsValid fmt p)"
  by (cases "m k") (simp_all add: index_def zeroCredentials_invalid)

lemma rangeOrder_mem: "rangeOrder es m \<Longrightarrow> (k, v) \<in> set es \<longleftrightarrow> m k = Some v"
  by (auto simp: rangeOrder_def)

lemmas example_defs =
  rootCred_def credA_def credB_def credI_def exampleStore_def zeroStorageClass_def
  zeroCredentials_def IsValid_def lengthFormat_def index_def entries_def

text \<open>
  C10. Each single-field setter changes its own field and nothing else: \<open>SetRegion\<close> the
  region, \<open>SetBrowser\<close> the browser flag, \<open>SetCredential\<close> the root credential (and it
  returns the previous one), \<open>SetStorageClass\<close> the two storage-class specs. Every other
  field of the store and the credential cache are as before.
\<close>

theorem setters_frame:
  "(case SetRegion r (s, cache) of (s', cache') \<Rightarrow>
      Region s' = r \<and> Version s' = Version s \<and> Credential s' = Credential s
      \<and> Browser s' = Browser s \<and> Domain s' = Domain s \<and> StorageClass s' = StorageClass s
      \<and> Notify s' = Notify s \<and> Bucket s' = Bucket s \<and> cache' = cache)
   \<and> (case SetBrowser b (s, cache) of (s', cache') \<Rightarrow>
      Browser s' = b \<and> Version s' = Version s \<and> Credential s' = Credential s
      \<and> Region s' = Region s \<and> Domain s' = Domain s \<and> StorageClass s' = StorageClass s
      \<and> Notify s' = Notify s \<and> Bucket s' = Bucket s \<and> cache' = cache)
   \<and> (case SetCredential c (s, cache) of (prevCred, s', cache') \<Rightarrow>
      prevCred = Credential s \<and> Credential s' = c \<and> Version s' = Version s
      \<and> Region s' = Region s \<and> Browser s' = Browser s \<and> Domain s' = Domain s
      \<and> StorageClass s' = StorageClass s \<and> Notify s' = Notify s \<and> Bucket s' = Bucket s
      \<and> cache' = cache)
   \<and> (case SetStorageClass standardClass rrsClass (s, cache) of (s', cache') \<Rightarrow>
      Standard (StorageClass s') = standardClass \<and> RRS (StorageClass s') = rrsClass
      \<and> Version s' = Version s \<and> Credential s' = Credential s \<and> Region s' = Region s
      \<and> Browser s' = Browser s \<and> Domain s' = Domain s \<and> Notify s' = Notify s
      \<and> Bucket s' = Bucket s \<and> cache' = cache)"
  by (simp add: SetRegion_def SetBrowser_def SetCredential_def SetStorageClass_def)

lemma entries_Some: "entries (Some m) = m"
  by (simp add: entries_def)

lemma SetCredentialForBucket_valid:
  assumes "bucket \<noteq> []" and "Bucket s = Some m" and "IsValid fmt (index m bucket)"
  shows "SetCredentialForBucket fmt bucket newCred (s, cache) =
           (Inr (index m bucket), s\<lparr>Bucket := Some (m(bucket \<mapsto> newCred))\<rparr>,
            (cache(AccessKey (index m bucket) := None))(AccessKey newCred \<mapsto> newCred))"
  using assms by (simp add: SetCredentialForBucket_def Let_def entries_def)

lemma SetCredentialForBucket_invalid:
  assumes "bucket \<noteq> []" and "Bucket s = Some m" and "\<not> IsValid fmt (index m bucket)"
  shows "SetCredentialForBucket fmt bucket newCred (s, cache) =
           (Inr (Credential s), s\<lparr>Bucket := Some (m(bucket \<mapsto> newCred))\<rparr>,
            cache(AccessKey newCred \<mapsto> newCred))"
  using assms by (simp add: SetCredentialForBucket_def Let_def entries_def)

lemma SetCredentialForBucket_nil:
  assumes "bucket \<noteq> []" and "Bucket s = None"
  shows "SetCredentialForBucket fmt bucket newCred (s, cache) = (Inl nilMapPanic, s, cache)"
  using assms
  by (simp add: SetCredentialForBucket_def Let_def entries_def index_def
      zeroCredentials_invalid)



text \<open>
  What \<open>SetCredentialForBucket\<close> does on a non-empty bucket name when it returns, which
  it does exactly when the bucket map is allocated: when the bucket had a valid
  credential, that credential is the previous value reported and its access key is
  deleted from the cache; when it had none, or an invalid one, the root credential is
  reported and nothing is deleted. In both cases the new credential is then stored in
  the bucket map under the bucket and in the cache under its own access key; the other
  buckets and the root credential are as before.
\<close>

theorem SetCredentialForBucket_bucket:
  assumes "bucket \<noteq> []" and "Bucket s = Some m"
  shows "\<exists>prevCred s' cache'.
           SetCredentialForBucket fmt bucket newCred (s, cache) = (Inr prevCred, s', cache')
         \<and> (\<forall>p. m bucket = Some p \<and> IsValid fmt p \<longrightarrow>
              prevCred = p
              \<and> cache' = (cache(AccessKey p := None))(AccessKey newCred \<mapsto> newCred))
         \<and> (\<not> (\<exists>p. m bucket = Some p \<and> IsValid fmt p) \<longrightarrow>
              prevCred = Credential s \<and> cache' = cache(AccessKey newCred \<mapsto> newCred))
         \<and> Bucket s' = Some (m(bucket \<mapsto> newCred))
         \<and> entries (Bucket s') bucket = Some newCred
         \<and> cache' (AccessKey newCred) = Some newCred
         \<and> Credential s' = Credential s"
proof (cases "IsValid fmt (index m bucket)")
  case True
  then obtain p where p: "m bucket = Some p" "IsValid fmt p"
    using index_valid_present by blast
  then have prev: "index m bucket = p" by (simp add: index_Some)
  show ?thesis
    using SetCredentialForBucket_valid[OF assms True, of newCred cache] p prev
    by (simp add: entries_def)
next
  case False
  then have none: "\<not> (\<exists>p. m bucket = Some p \<and> IsValid fmt p)"
    using index_valid_present by blast
  show ?thesis
    using SetCredentialForBucket_invalid[OF assms False, of newCred cache] none
    by (auto simp: entries_def)
qed

text \<open>
  The theorem at a bucket that holds the valid credential \<open>credA\<close>, cached under its
  access key: \<open>credA\<close> is reported, its cache entry is gone and \<open>credB\<close> is in both maps.
\<close>

theorem SetCredentialForBucket_bucket_witness:
  "''b1'' \<noteq> []
   \<and> Bucket (exampleStore\<lparr>Bucket := Some [''b1'' \<mapsto> credA]\<rparr>) = Some [''b1'' \<mapsto> credA]
   \<and> [''b1'' \<mapsto> credA] ''b1'' = Some credA
   \<and> IsValid lengthFormat credA
   \<and> SetCredentialForBucket lengthFormat ''b1'' credB
        (exampleStore\<lparr>Bucket := Some [''b1'' \<mapsto> credA]\<rparr>, [''accessA'' \<mapsto> credA])
      = (Inr credA, exampleStore\<lparr>Bucket := Some [''b1'' \<mapsto> credB]\<rparr>, [''accessB'' \<mapsto> credB])
   \<and> [''accessB'' \<mapsto> credB] ''accessA'' = None
   \<and> [''accessB'' \<mapsto> credB] (AccessKey credB) = Some credB"
proof -
  have ne: "''b1'' \<noteq> []" by simp
  have alloc: "Bucket (exampleStore\<lparr>Bucket := Some [''b1'' \<mapsto> credA]\<rparr>)
      = Some [''b1'' \<mapsto> credA]"
    by simp
  have valid: "IsValid lengthFormat credA" by (simp add: example_defs)
  obtain prevCred s' cache' where
    run: "SetCredentialForBucket lengthFormat ''b1'' credB
        (exampleStore\<lparr>Bucket := Some [''b1'' \<mapsto> credA]\<rparr>, [''accessA'' \<mapsto> credA])
      = (Inr prevCred, s', cache')"
    and prev: "\<forall>p. [''b1'' \<mapsto> credA] ''b1'' = Some p \<and> IsValid lengthFormat p \<longrightarrow>
        prevCred = p
        \<and> cache' = ([''accessA'' \<mapsto> credA](AccessKey p := None))(AccessKey credB \<mapsto> credB)"
    and bucket: "Bucket s' = Some ([''b1'' \<mapsto> credA](''b1'' \<mapsto> credB))"
    using SetCredentialForBucket_bucket[OF ne alloc, of lengthFormat credB
        "[''accessA'' \<mapsto> credA]"]
    by blast
  have "prevCred = credA"
    and "cache' = ([''accessA'' \<mapsto> credA](AccessKey credA := None))(AccessKey credB \<mapsto> credB)"
    using prev valid by simp_all
  then have "prevCred = credA" and "cache' = [''accessB'' \<mapsto> credB]"
    by (simp_all add: example_defs)
  moreover have "s' = exampleStore\<lparr>Bucket := Some [''b1'' \<mapsto> credB]\<rparr>"
    using run
    by (simp add: SetCredentialForBucket_def Let_def entries_def example_defs split: if_splits)
  ultimately show ?thesis
    using run valid by (simp add: example_defs)
qed

text \<open>
  C3 does not hold of the code for every store. \<open>getValidConfig\<close> hands \<^verbatim>\<open>quick.Load\<close> a
  struct whose bucket map is nil and, unlike \<open>newServerConfig\<close>, never makes the map, and
  \<open>loadConfig\<close> makes only the cache. A configuration file without an entry for the
  bucket map is therefore published as a store whose bucket map is nil; on that store
  \<open>SetCredentialForBucket\<close> with a non-empty bucket name panics at the assignment to the
  map, and neither the bucket map nor the cache receives the new credential. On the
  store of \<open>newServerConfig\<close> the map is made and the call returns.
\<close>

theorem SetCredentialForBucket_nil_panics:
  "map_option fst
      (loadConfig ((exampleCollaborators (Inl []))\<lparr>quickLoad := loadWithoutBucket\<rparr>)
         exampleGlobals) = Some None
   \<and> map_option (globalServerConfig \<circ> snd)
      (loadConfig ((exampleCollaborators (Inl []))\<lparr>quickLoad := loadWithoutBucket\<rparr>)
         exampleGlobals) = Some (Some (exampleStore\<lparr>Bucket := None\<rparr>))
   \<and> map_option (globalServerCredCache \<circ> snd)
      (loadConfig ((exampleCollaborators (Inl []))\<lparr>quickLoad := loadWithoutBucket\<rparr>)
         exampleGlobals) = Some Map.empty
   \<and> SetCredentialForBucket lengthFormat ''b1'' credA (exampleStore\<lparr>Bucket := None\<rparr>, Map.empty)
      = (Inl nilMapPanic, exampleStore\<lparr>Bucket := None\<rparr>, Map.empty)
   \<and> Bucket (newServerConfig (exampleCollaborators (Inl []))) = Some Map.empty
   \<and> fst (SetCredentialForBucket lengthFormat ''b1'' credA
            (newServerConfig (exampleCollaborators (Inl [])), Map.empty))
      = Inr credA"
proof -
  let ?c = "(exampleCollaborators (Inl []))\<lparr>quickLoad := loadWithoutBucket\<rparr>"
  have dup: "checkDupJSONKeys id ''config.json'' (JObject []) = None"
    by (simp add: checkDupJSONKeys_def doCheckDupJSONKeys.simps)
  have valid: "getValidConfig ?c exampleGlobals = Inr (exampleStore\<lparr>Bucket := None\<rparr>)"
    by (simp add: getValidConfig_def blankConfig_def loadWithoutBucket_def
        exampleCollaborators_def exampleGlobals_def serverConfigVersion_def Let_def dup
        example_defs)
  have load: "loadConfig ?c exampleGlobals
      = Some (None, exampleGlobals
          \<lparr>globalServerConfig := Some (exampleStore\<lparr>Bucket := None\<rparr>),
           globalServerCredCache := Map.empty\<rparr>)"
    unfolding loadConfig_def valid
    by (simp add: applyEnv_def GetStorageClass_def GetCredential_def GetBrowser_def
        GetRegion_def exampleGlobals_def Let_def example_defs)
  have panic: "SetCredentialForBucket lengthFormat ''b1'' credA
        (exampleStore\<lparr>Bucket := None\<rparr>, Map.empty)
      = (Inl nilMapPanic, exampleStore\<lparr>Bucket := None\<rparr>, Map.empty)"
    by (rule SetCredentialForBucket_nil) simp_all
  have made: "Bucket (newServerConfig (exampleCollaborators (Inl []))) = Some Map.empty"
    by (simp add: newServerConfig_def)
  have returns: "fst (SetCredentialForBucket lengthFormat ''b1'' credA
            (newServerConfig (exampleCollaborators (Inl [])), Map.empty)) = Inr credA"
    by (simp add: SetCredentialForBucket_def newServerConfig_def exampleCollaborators_def
        entries_def Let_def example_defs)
  show ?thesis
    unfolding load using panic made returns by simp
qed

text \<open>
  C7, as the code has it. \<open>GetCredentialForBucket\<close> returns the bucket's credential when
  the bucket has one and it is valid, and the root credential otherwise; the result is
  valid whenever the root credential is valid. (A store whose root credential is invalid
  gets that invalid credential for a bucket with no valid override.)
\<close>

theorem GetCredentialForBucket_result:
  "(\<forall>p. entries (Bucket s) bucket = Some p \<and> IsValid fmt p \<longrightarrow>
        GetCredentialForBucket fmt bucket (s, cache) = p)
   \<and> (\<not> (\<exists>p. entries (Bucket s) bucket = Some p \<and> IsValid fmt p) \<longrightarrow>
        GetCredentialForBucket fmt bucket (s, cache) = Credential s)
   \<and> (IsValid fmt (Credential s) \<longrightarrow>
        IsValid fmt (GetCredentialForBucket fmt bucket (s, cache)))"
  using index_valid_present[of fmt "entries (Bucket s)" bucket]
  by (auto simp: GetCredentialForBucket_def Let_def index_Some)

text \<open>
  The theorem at a store with a valid root credential, for a bucket with the valid
  override \<open>credA\<close> and for a bucket with none.
\<close>

theorem GetCredentialForBucket_result_witness:
  "entries (Bucket (exampleStore\<lparr>Bucket := Some [''b1'' \<mapsto> credA]\<rparr>)) ''b1'' = Some credA
   \<and> IsValid lengthFormat credA
   \<and> GetCredentialForBucket lengthFormat ''b1''
        (exampleStore\<lparr>Bucket := Some [''b1'' \<mapsto> credA]\<rparr>, Map.empty) = credA
   \<and> entries (Bucket (exampleStore\<lparr>Bucket := Some [''b1'' \<mapsto> credA]\<rparr>)) ''b2'' = None
   \<and> GetCredentialForBucket lengthFormat ''b2''
        (exampleStore\<lparr>Bucket := Some [''b1'' \<mapsto> credA]\<rparr>, Map.empty) = rootCred
   \<and> IsValid lengthFormat (Credential (exampleStore\<lparr>Bucket := Some [''b1'' \<mapsto> credA]\<rparr>))
   \<and> IsValid lengthFormat (GetCredentialForBucket lengthFormat ''b2''
        (exampleStore\<lparr>Bucket := Some [''b1'' \<mapsto> credA]\<rparr>, Map.empty))"
  using GetCredentialForBucket_result[of "exampleStore\<lparr>Bucket := Some [''b1'' \<mapsto> credA]\<rparr>" "''b1''"
      lengthFormat Map.empty]
    GetCredentialForBucket_result[of "exampleStore\<lparr>Bucket := Some [''b1'' \<mapsto> credA]\<rparr>" "''b2''"
      lengthFormat Map.empty]
  by (simp add: example_defs)

text \<open>
  The claim as the specification states it, "never an invalid credential", fails at a
  store whose root credential is the zero credential, which \<open>SetCredential\<close> installs
  without any check: for a bucket with no override the result is that invalid
  credential.
\<close>

theorem GetCredentialForBucket_invalid_counterexample:
  "\<not> IsValid lengthFormat
       (GetCredentialForBucket lengthFormat ''b1''
          (snd (SetCredential zeroCredentials (exampleStore, Map.empty))))"
  by (simp add: GetCredentialForBucket_def SetCredential_def Let_def example_defs)

lemma huntBucket_Some:
  "huntBucket es key = Some bucket \<Longrightarrow> \<exists>creds. (bucket, creds) \<in> set es \<and> AccessKey creds = key"
  by (induction es key rule: huntBucket.induct) (auto split: if_splits)

lemma huntBucket_None:
  "huntBucket es key = None \<longleftrightarrow> (\<forall>(bucket, creds) \<in> set es. AccessKey creds \<noteq> key)"
  by (induction es key rule: huntBucket.induct) auto

text \<open>
  C9. \<open>GetBucketForKey\<close> returns the empty string for the root credential's access key,
  whatever the bucket map holds. For any other key it returns a bucket whose credential
  has that access key when there is one, and the empty string when there is none. The
  loop may visit the bucket map in any order \<open>es\<close>.
\<close>

theorem GetBucketForKey_result:
  assumes "rangeOrder es (entries (Bucket s))"
  shows "(key = AccessKey (Credential s) \<longrightarrow> GetBucketForKey es key (s, cache) = [])
       \<and> (key \<noteq> AccessKey (Credential s)
            \<and> (\<exists>bucket creds. entries (Bucket s) bucket = Some creds \<and> AccessKey creds = key) \<longrightarrow>
            (\<exists>creds. entries (Bucket s) (GetBucketForKey es key (s, cache)) = Some creds
                      \<and> AccessKey creds = key))
       \<and> (key \<noteq> AccessKey (Credential s)
            \<and> \<not> (\<exists>bucket creds. entries (Bucket s) bucket = Some creds \<and> AccessKey creds = key) \<longrightarrow>
            GetBucketForKey es key (s, cache) = [])"
proof (intro conjI impI)
  assume "key = AccessKey (Credential s)"
  then show "GetBucketForKey es key (s, cache) = []"
    by (simp add: GetBucketForKey_def)
next
  assume a: "key \<noteq> AccessKey (Credential s)
       \<and> (\<exists>bucket creds. entries (Bucket s) bucket = Some creds \<and> AccessKey creds = key)"
  then obtain b c where bc: "entries (Bucket s) b = Some c" "AccessKey c = key" by blast
  then have "(b, c) \<in> set es" using assms by (simp add: rangeOrder_mem)
  with bc have "huntBucket es key \<noteq> None" by (auto simp: huntBucket_None)
  then obtain b' where b': "huntBucket es key = Some b'" by blast
  then obtain c' where "(b', c') \<in> set es" "AccessKey c' = key"
    using huntBucket_Some by blast
  then have "entries (Bucket s) b' = Some c'" using assms by (simp add: rangeOrder_mem)
  with a b' \<open>AccessKey c' = key\<close>
  show "\<exists>creds. entries (Bucket s) (GetBucketForKey es key (s, cache)) = Some creds \<and> AccessKey creds = key"
    by (simp add: GetBucketForKey_def)
next
  assume a: "key \<noteq> AccessKey (Credential s)
       \<and> \<not> (\<exists>bucket creds. entries (Bucket s) bucket = Some creds \<and> AccessKey creds = key)"
  have "AccessKey c \<noteq> key" if "(b, c) \<in> set es" for b c
  proof -
    from that have "entries (Bucket s) b = Some c" using assms by (simp add: rangeOrder_mem)
    with a show ?thesis by blast
  qed
  then have "\<forall>(b, c) \<in> set es. AccessKey c \<noteq> key" by blast
  then have "huntBucket es key = None" by (simp add: huntBucket_None)
  with a show "GetBucketForKey es key (s, cache) = []"
    by (simp add: GetBucketForKey_def)
qed

text \<open>
  The theorem at a store where two buckets hold \<open>credA\<close> and \<open>credB\<close> and a third holds a
  credential with the root's access key: the root's key gives the empty string, the
  key of \<open>credB\<close> gives its bucket, an unknown key gives the empty string.
\<close>

theorem GetBucketForKey_result_witness:
  "rangeOrder [(''b3'', rootCred), (''b1'', credA), (''b2'', credB)]
      (entries (Bucket (exampleStore\<lparr>Bucket := Some [''b3'' \<mapsto> rootCred, ''b1'' \<mapsto> credA, ''b2'' \<mapsto> credB]\<rparr>)))
   \<and> GetBucketForKey [(''b3'', rootCred), (''b1'', credA), (''b2'', credB)] ''rootaccess''
        (exampleStore\<lparr>Bucket := Some [''b3'' \<mapsto> rootCred, ''b1'' \<mapsto> credA, ''b2'' \<mapsto> credB]\<rparr>,
         Map.empty) = []
   \<and> GetBucketForKey [(''b3'', rootCred), (''b1'', credA), (''b2'', credB)] ''accessB''
        (exampleStore\<lparr>Bucket := Some [''b3'' \<mapsto> rootCred, ''b1'' \<mapsto> credA, ''b2'' \<mapsto> credB]\<rparr>,
         Map.empty) = ''b2''
   \<and> GetBucketForKey [(''b3'', rootCred), (''b1'', credA), (''b2'', credB)] ''nobody''
        (exampleStore\<lparr>Bucket := Some [''b3'' \<mapsto> rootCred, ''b1'' \<mapsto> credA, ''b2'' \<mapsto> credB]\<rparr>,
         Map.empty) = []"
proof -
  let ?es = "[(''b3'', rootCred), (''b1'', credA), (''b2'', credB)]"
  let ?s = "exampleStore\<lparr>Bucket := Some [''b3'' \<mapsto> rootCred, ''b1'' \<mapsto> credA, ''b2'' \<mapsto> credB]\<rparr>"
  have ord: "rangeOrder ?es (entries (Bucket ?s))"
    by (auto simp: rangeOrder_def entries_def fun_eq_iff)
  show ?thesis
    using GetBucketForKey_result[OF ord, of "''rootaccess''" Map.empty]
      GetBucketForKey_result[OF ord, of "''accessB''" Map.empty]
      GetBucketForKey_result[OF ord, of "''nobody''" Map.empty] ord
    by (simp add: GetBucketForKey_def example_defs)
qed


section \<open>Properties of the resolver and of the cache\<close>

lemma scanBuckets_None:
  "scanBuckets es key cache = None \<longleftrightarrow> (\<forall>(b, c) \<in> set es. AccessKey c \<noteq> key)"
  by (induction es key cache rule: scanBuckets.induct) auto

lemma scanBuckets_first:
  "\<forall>(b, c) \<in> set pre. AccessKey c \<noteq> key \<Longrightarrow> AccessKey cred = key \<Longrightarrow>
   scanBuckets (pre @ (bucket, cred) # post) key cache = Some (cred, cache(AccessKey cred \<mapsto> cred))"
  by (induction pre) auto

lemma scanBuckets_Some:
  "scanBuckets es key cache = Some (cred, cache') \<Longrightarrow>
   AccessKey cred = key \<and> cache' = cache(key \<mapsto> cred) \<and> (\<exists>b. (b, cred) \<in> set es)"
  by (induction es key cache rule: scanBuckets.induct) (auto split: if_splits)

lemma index_valid_key:
  "IsValid fmt (index cache key) \<and> AccessKey (index cache key) = key
    \<longleftrightarrow> (\<exists>e. cache key = Some e \<and> IsValid fmt e \<and> AccessKey e = key)"
  by (cases "cache key") (simp_all add: index_def zeroCredentials_invalid)

lemma GetCredentialForKey_root:
  "key = AccessKey (Credential s) \<Longrightarrow>
   GetCredentialForKey fmt es key (s, cache) = ((Credential s, FromRoot), cache)"
  by (simp add: GetCredentialForKey_def)

lemma GetCredentialForKey_cache:
  "key \<noteq> AccessKey (Credential s) \<Longrightarrow> cache key = Some e \<Longrightarrow> IsValid fmt e \<Longrightarrow>
   AccessKey e = key \<Longrightarrow>
   GetCredentialForKey fmt es key (s, cache) = ((e, FromCache), cache)"
  by (auto simp: GetCredentialForKey_def Let_def index_Some)

lemma GetCredentialForKey_scan:
  assumes "key \<noteq> AccessKey (Credential s)"
    and "\<not> (\<exists>e. cache key = Some e \<and> IsValid fmt e \<and> AccessKey e = key)"
  shows "GetCredentialForKey fmt es key (s, cache) =
           (case scanBuckets es key cache of
              Some (cred, cache') \<Rightarrow> ((cred, FromScan), cache')
            | None \<Rightarrow> ((zeroCredentials, NoMatch), cache))"
proof -
  have "\<not> (IsValid fmt (index cache key) \<and> AccessKey (index cache key) = key)"
    using assms(2) index_valid_key by blast
  with assms(1) show ?thesis
    by (auto simp: GetCredentialForKey_def Let_def)
qed

text \<open>
  C1, as the code has it. \<open>GetCredentialForKey\<close> stops at the first match. A key equal
  to the root credential's access key gives the root credential, and the cache is not
  consulted. Otherwise, when the cache holds under the key an entry that is a valid
  credential with that access key, the entry is returned. Otherwise (no entry, an
  invalid one, or one with another access key) the bucket map is scanned in the order
  \<open>es\<close> of the visit: the first credential with the access key is a value of the bucket
  map, it is written to the cache under its own access key and returned; when no
  bucket credential has the access key the zero credential is returned and the cache is
  as before. The result is always a credential: there is no error.
\<close>

theorem GetCredentialForKey_resolution:
  assumes "rangeOrder es (entries (Bucket s))"
  shows "(key = AccessKey (Credential s) \<longrightarrow>
            GetCredentialForKey fmt es key (s, cache) = ((Credential s, FromRoot), cache))
       \<and> (key \<noteq> AccessKey (Credential s) \<longrightarrow>
            (\<forall>e. cache key = Some e \<and> IsValid fmt e \<and> AccessKey e = key \<longrightarrow>
               GetCredentialForKey fmt es key (s, cache) = ((e, FromCache), cache))
          \<and> (\<not> (\<exists>e. cache key = Some e \<and> IsValid fmt e \<and> AccessKey e = key) \<longrightarrow>
               (\<forall>pre bucket cred post.
                  es = pre @ (bucket, cred) # post \<and> AccessKey cred = key
                  \<and> (\<forall>(b, c) \<in> set pre. AccessKey c \<noteq> key) \<longrightarrow>
                  entries (Bucket s) bucket = Some cred
                  \<and> GetCredentialForKey fmt es key (s, cache)
                      = ((cred, FromScan), cache(AccessKey cred \<mapsto> cred)))
             \<and> ((\<forall>bucket cred. entries (Bucket s) bucket = Some cred \<longrightarrow> AccessKey cred \<noteq> key) \<longrightarrow>
                  GetCredentialForKey fmt es key (s, cache)
                    = ((zeroCredentials, NoMatch), cache))))"
proof (intro conjI impI allI)
  assume "key = AccessKey (Credential s)"
  then show "GetCredentialForKey fmt es key (s, cache) = ((Credential s, FromRoot), cache)"
    by (rule GetCredentialForKey_root)
next
  fix e
  assume "key \<noteq> AccessKey (Credential s)"
    and "cache key = Some e \<and> IsValid fmt e \<and> AccessKey e = key"
  then show "GetCredentialForKey fmt es key (s, cache) = ((e, FromCache), cache)"
    by (simp add: GetCredentialForKey_cache)
next
  fix pre bucket cred post
  assume "es = pre @ (bucket, cred) # post \<and> AccessKey cred = key
            \<and> (\<forall>(b, c) \<in> set pre. AccessKey c \<noteq> key)"
  then have "(bucket, cred) \<in> set es" by simp
  then show "entries (Bucket s) bucket = Some cred"
    using assms by (simp add: rangeOrder_mem)
next
  fix pre bucket cred post
  assume root: "key \<noteq> AccessKey (Credential s)"
    and miss: "\<not> (\<exists>e. cache key = Some e \<and> IsValid fmt e \<and> AccessKey e = key)"
    and first: "es = pre @ (bucket, cred) # post \<and> AccessKey cred = key
            \<and> (\<forall>(b, c) \<in> set pre. AccessKey c \<noteq> key)"
  then have "scanBuckets es key cache = Some (cred, cache(AccessKey cred \<mapsto> cred))"
    using scanBuckets_first[of pre key cred bucket post cache] by simp
  then show "GetCredentialForKey fmt es key (s, cache)
               = ((cred, FromScan), cache(AccessKey cred \<mapsto> cred))"
    using GetCredentialForKey_scan[where key = key and s = s and cache = cache
        and fmt = fmt and es = es] root miss
    by simp
next
  assume root: "key \<noteq> AccessKey (Credential s)"
    and miss: "\<not> (\<exists>e. cache key = Some e \<and> IsValid fmt e \<and> AccessKey e = key)"
    and none: "\<forall>bucket cred. entries (Bucket s) bucket = Some cred \<longrightarrow> AccessKey cred \<noteq> key"
  have "AccessKey c \<noteq> key" if "(b, c) \<in> set es" for b c
  proof -
    from that have "entries (Bucket s) b = Some c" using assms by (simp add: rangeOrder_mem)
    with none show ?thesis by blast
  qed
  then have "scanBuckets es key cache = None"
    by (auto simp: scanBuckets_None)
  then show "GetCredentialForKey fmt es key (s, cache) = ((zeroCredentials, NoMatch), cache)"
    using GetCredentialForKey_scan[where key = key and s = s and cache = cache
        and fmt = fmt and es = es] root miss
    by simp
qed

text \<open>
  The theorem at a store with buckets for \<open>credA\<close> and \<open>credB\<close> and a cache that holds
  only \<open>credA\<close>: the root's key is answered by the root credential, the key of \<open>credA\<close> by
  the cache, the key of \<open>credB\<close> by the scan, which caches it, and an unknown key by the
  zero credential.
\<close>

theorem GetCredentialForKey_resolution_witness:
  "rangeOrder [(''b1'', credA), (''b2'', credB)]
      (entries (Bucket (exampleStore\<lparr>Bucket := Some [''b1'' \<mapsto> credA, ''b2'' \<mapsto> credB]\<rparr>)))
   \<and> GetCredentialForKey lengthFormat [(''b1'', credA), (''b2'', credB)] ''rootaccess''
        (exampleStore\<lparr>Bucket := Some [''b1'' \<mapsto> credA, ''b2'' \<mapsto> credB]\<rparr>, [''accessA'' \<mapsto> credA])
      = ((rootCred, FromRoot), [''accessA'' \<mapsto> credA])
   \<and> [''accessA'' \<mapsto> credA] ''accessA'' = Some credA \<and> IsValid lengthFormat credA
   \<and> GetCredentialForKey lengthFormat [(''b1'', credA), (''b2'', credB)] ''accessA''
        (exampleStore\<lparr>Bucket := Some [''b1'' \<mapsto> credA, ''b2'' \<mapsto> credB]\<rparr>, [''accessA'' \<mapsto> credA])
      = ((credA, FromCache), [''accessA'' \<mapsto> credA])
   \<and> [''accessA'' \<mapsto> credA] ''accessB'' = None
   \<and> GetCredentialForKey lengthFormat [(''b1'', credA), (''b2'', credB)] ''accessB''
        (exampleStore\<lparr>Bucket := Some [''b1'' \<mapsto> credA, ''b2'' \<mapsto> credB]\<rparr>, [''accessA'' \<mapsto> credA])
      = ((credB, FromScan), [''accessA'' \<mapsto> credA, ''accessB'' \<mapsto> credB])
   \<and> GetCredentialForKey lengthFormat [(''b1'', credA), (''b2'', credB)] ''nobody''
        (exampleStore\<lparr>Bucket := Some [''b1'' \<mapsto> credA, ''b2'' \<mapsto> credB]\<rparr>, [''accessA'' \<mapsto> credA])
      = ((zeroCredentials, NoMatch), [''accessA'' \<mapsto> credA])"
proof -
  let ?es = "[(''b1'', credA), (''b2'', credB)]"
  let ?s = "exampleStore\<lparr>Bucket := Some [''b1'' \<mapsto> credA, ''b2'' \<mapsto> credB]\<rparr>"
  let ?cache = "[''accessA'' \<mapsto> credA]"
  have ord: "rangeOrder ?es (entries (Bucket ?s))"
    by (auto simp: rangeOrder_def entries_def fun_eq_iff)
  note res = GetCredentialForKey_resolution[OF ord, of _ lengthFormat ?cache]
  have root: "GetCredentialForKey lengthFormat ?es ''rootaccess'' (?s, ?cache)
      = ((rootCred, FromRoot), ?cache)"
    using res[of "''rootaccess''"] by (simp add: example_defs)
  have cached: "GetCredentialForKey lengthFormat ?es ''accessA'' (?s, ?cache)
      = ((credA, FromCache), ?cache)"
    using res[of "''accessA''"] by (simp add: example_defs)
  have miss: "\<not> (\<exists>e. ?cache ''accessB'' = Some e \<and> IsValid lengthFormat e
      \<and> AccessKey e = ''accessB'')"
    by simp
  have notroot: "''accessB'' \<noteq> AccessKey (Credential ?s)"
    by (simp add: example_defs)
  have first: "?es = [(''b1'', credA)] @ (''b2'', credB) # [] \<and> AccessKey credB = ''accessB''
      \<and> (\<forall>(b, c) \<in> set [(''b1'', credA)]. AccessKey c \<noteq> ''accessB'')"
    by (simp add: example_defs)
  have "\<forall>pre bucket cred post.
          ?es = pre @ (bucket, cred) # post \<and> AccessKey cred = ''accessB''
          \<and> (\<forall>(b, c) \<in> set pre. AccessKey c \<noteq> ''accessB'') \<longrightarrow>
          entries (Bucket ?s) bucket = Some cred
          \<and> GetCredentialForKey lengthFormat ?es ''accessB'' (?s, ?cache)
              = ((cred, FromScan), ?cache(AccessKey cred \<mapsto> cred))"
    using res[of "''accessB''"] notroot miss by blast
  then have "entries (Bucket ?s) ''b2'' = Some credB
      \<and> GetCredentialForKey lengthFormat ?es ''accessB'' (?s, ?cache)
          = ((credB, FromScan), ?cache(AccessKey credB \<mapsto> credB))"
    using first by blast
  then have scanned: "GetCredentialForKey lengthFormat ?es ''accessB'' (?s, ?cache)
      = ((credB, FromScan), ?cache(''accessB'' \<mapsto> credB))"
    by (simp add: credB_def)
  have "\<forall>bucket cred. entries (Bucket ?s) bucket = Some cred \<longrightarrow> AccessKey cred \<noteq> ''nobody''"
    by (simp add: example_defs)
  then have none: "GetCredentialForKey lengthFormat ?es ''nobody'' (?s, ?cache)
      = ((zeroCredentials, NoMatch), ?cache)"
    using res[of "''nobody''"] by (simp add: example_defs)
  show ?thesis
    using ord root cached scanned none by (simp add: example_defs)
qed

text \<open>
  The claim as the specification states it, "if the cache holds an entry for the key
  whose access key field matches, it returns that entry", fails when the entry is an
  invalid credential. Setting bucket \<open>b1\<close> to the invalid \<open>credI\<close> and then to \<open>credB\<close>
  leaves \<open>credI\<close> in the cache under its access key; resolving that key does not return
  the entry but scans, finds nothing and returns the zero credential.
\<close>

theorem GetCredentialForKey_cache_counterexample:
  "snd (SetCredentialForBucket lengthFormat ''b1'' credB
         (snd (SetCredentialForBucket lengthFormat ''b1'' credI (exampleStore, Map.empty))))
     = (exampleStore\<lparr>Bucket := Some [''b1'' \<mapsto> credB]\<rparr>,
        [''accessI'' \<mapsto> credI, ''accessB'' \<mapsto> credB])
   \<and> rangeOrder [(''b1'', credB)] (entries (Bucket (exampleStore\<lparr>Bucket := Some [''b1'' \<mapsto> credB]\<rparr>)))
   \<and> ''accessI'' \<noteq> AccessKey (Credential (exampleStore\<lparr>Bucket := Some [''b1'' \<mapsto> credB]\<rparr>))
   \<and> [''accessI'' \<mapsto> credI, ''accessB'' \<mapsto> credB] ''accessI'' = Some credI
   \<and> AccessKey credI = ''accessI''
   \<and> GetCredentialForKey lengthFormat [(''b1'', credB)] ''accessI''
        (exampleStore\<lparr>Bucket := Some [''b1'' \<mapsto> credB]\<rparr>,
         [''accessI'' \<mapsto> credI, ''accessB'' \<mapsto> credB])
      = ((zeroCredentials, NoMatch), [''accessI'' \<mapsto> credI, ''accessB'' \<mapsto> credB])
   \<and> zeroCredentials \<noteq> credI"
  by (simp add: SetCredentialForBucket_def GetCredentialForKey_def rangeOrder_def Let_def
      example_defs)




section \<open>The invariant of the cache is preserved\<close>

lemma validEntriesCurrentD:
  assumes "validEntriesCurrent fmt (s, cache)" and "cache k = Some cred" and "IsValid fmt cred"
  shows "AccessKey cred = k" and "cred = Credential s \<or> cred \<in> ran (entries (Bucket s))"
  using assms unfolding validEntriesCurrent_def by blast+

lemma validEntriesCurrentI:
  assumes "\<And>k cred. cache k = Some cred \<Longrightarrow> IsValid fmt cred \<Longrightarrow>
             AccessKey cred = k \<and> (cred = Credential s \<or> cred \<in> ran (entries (Bucket s)))"
  shows "validEntriesCurrent fmt (s, cache)"
  using assms unfolding validEntriesCurrent_def by blast

lemma ran_upd_other:
  assumes "m b = Some v" and "b \<noteq> a"
  shows "v \<in> ran (m(a \<mapsto> w))"
proof -
  from assms have "(m(a \<mapsto> w)) b = Some v" by simp
  then show ?thesis unfolding ran_def by blast
qed

lemma ran_upd_new: "w \<in> ran (m(a \<mapsto> w))"
  unfolding ran_def by auto

lemma validEntriesCurrent_SetCredentialForBucket:
  assumes inv: "validEntriesCurrent fmt (s, cache)" and ne: "bucket \<noteq> []"
  shows "validEntriesCurrent fmt (snd (SetCredentialForBucket fmt bucket creds (s, cache)))"
proof (cases "Bucket s")
  case None
  then show ?thesis
    using SetCredentialForBucket_nil[OF ne None, of fmt creds cache] inv by simp
next
  case (Some m)
  let ?prev = "index m bucket"
  let ?s' = "s\<lparr>Bucket := Some (m(bucket \<mapsto> creds))\<rparr>"
  let ?evicted = "if IsValid fmt ?prev then cache(AccessKey ?prev := None) else cache"
  have ents: "entries (Bucket s) = m" using Some by (simp add: entries_def)
  have res: "snd (SetCredentialForBucket fmt bucket creds (s, cache)) =
          (?s', ?evicted(AccessKey creds \<mapsto> creds))"
    using SetCredentialForBucket_valid[OF ne Some, of fmt creds cache]
      SetCredentialForBucket_invalid[OF ne Some, of fmt creds cache]
    by (cases "IsValid fmt ?prev") simp_all
  have fields: "Credential ?s' = Credential s" "entries (Bucket ?s') = m(bucket \<mapsto> creds)"
    by (simp_all add: entries_def)
  have "validEntriesCurrent fmt (?s', ?evicted(AccessKey creds \<mapsto> creds))"
  proof (rule validEntriesCurrentI)
    fix k cred
    assume look: "(?evicted(AccessKey creds \<mapsto> creds)) k = Some cred"
      and v: "IsValid fmt cred"
    show "AccessKey cred = k
        \<and> (cred = Credential ?s' \<or> cred \<in> ran (entries (Bucket ?s')))"
    proof (cases "k = AccessKey creds")
      case True
      with look have "cred = creds" by simp
      with True show ?thesis unfolding fields by (simp add: ran_upd_new)
    next
      case False
      with look have ev: "?evicted k = Some cred" by simp
      then have old: "cache k = Some cred" by (simp split: if_splits)
      have key: "AccessKey cred = k"
        and cur: "cred = Credential s \<or> cred \<in> ran m"
        using validEntriesCurrentD[OF inv old v] ents by simp_all
      from cur show ?thesis
      proof
        assume "cred = Credential s"
        with key show ?thesis unfolding fields by simp
      next
        assume "cred \<in> ran m"
        then obtain b where b: "m b = Some cred" unfolding ran_def by blast
        have "b \<noteq> bucket"
        proof
          assume "b = bucket"
          with b have prev: "?prev = cred" by (simp add: index_Some)
          with v have "?evicted k = None" using key by simp
          with ev show False by simp
        qed
        with b have "cred \<in> ran (m(bucket \<mapsto> creds))" by (rule ran_upd_other)
        with key show ?thesis unfolding fields by simp
      qed
    qed
  qed
  then show ?thesis unfolding res .
qed

lemma validEntriesCurrent_GetCredentialForKey:
  assumes inv: "validEntriesCurrent fmt (s, cache)" and ord: "rangeOrder es (entries (Bucket s))"
  shows "validEntriesCurrent fmt (s, snd (GetCredentialForKey fmt es key (s, cache)))"
proof (cases "scanBuckets es key cache")
  case None
  then have "snd (GetCredentialForKey fmt es key (s, cache)) = cache"
    by (simp add: GetCredentialForKey_def Let_def)
  with inv show ?thesis by simp
next
  case (Some r)
  obtain cred cache' where r: "r = (cred, cache')" by (cases r)
  with Some scanBuckets_Some[of es key cache cred cache']
  obtain b where k: "AccessKey cred = key" and c': "cache' = cache(key \<mapsto> cred)"
    and mem: "(b, cred) \<in> set es" by blast
  from mem ord have "entries (Bucket s) b = Some cred" by (simp add: rangeOrder_mem)
  then have ran: "cred \<in> ran (entries (Bucket s))" unfolding ran_def by blast
  have "validEntriesCurrent fmt (s, cache')"
  proof (rule validEntriesCurrentI)
    fix k' cred'
    assume look: "cache' k' = Some cred'" and v: "IsValid fmt cred'"
    show "AccessKey cred' = k' \<and> (cred' = Credential s \<or> cred' \<in> ran (entries (Bucket s)))"
    proof (cases "k' = key")
      case True
      with look c' have "cred' = cred" by simp
      with True k ran show ?thesis by simp
    next
      case False
      with look c' have "cache k' = Some cred'" by simp
      then show ?thesis using validEntriesCurrentD[OF inv _ v] by blast
    qed
  qed
  moreover have "snd (GetCredentialForKey fmt es key (s, cache)) = cache
      \<or> snd (GetCredentialForKey fmt es key (s, cache)) = cache'"
    using Some r by (simp add: GetCredentialForKey_def Let_def)
  ultimately show ?thesis using inv by auto
qed

lemma GetStorageClass_frame:
  "GetStorageClass c s g = Some (r, g') \<Longrightarrow>
   globalServerCredCache g' = globalServerCredCache g
   \<and> globalServerConfig g' = globalServerConfig g"
  by (auto simp: GetStorageClass_def Let_def split: option.splits if_splits)

lemma validEntriesCurrent_empty: "validEntriesCurrent fmt (s, Map.empty)"
  by (rule validEntriesCurrentI) simp

lemma newConfig_publishes:
  "\<exists>s. globalServerConfig (snd (newConfig c g)) = Some s
       \<and> globalServerCredCache (snd (newConfig c g)) = Map.empty"
  by (simp add: newConfig_def Let_def split: prod.splits)

lemma loadConfig_publishes:
  assumes "loadConfig c g = Some (res, g')"
  shows "(res \<noteq> None \<and> g' = g)
       \<or> (res = None \<and> (\<exists>s. globalServerConfig g' = Some s)
            \<and> globalServerCredCache g' = Map.empty)"
proof (cases "getValidConfig c g")
  case (Inl err)
  with assms show ?thesis by (auto simp: loadConfig_def)
next
  case (Inr srvCfg)
  obtain s cache where env: "applyEnv g (srvCfg, globalServerCredCache g) = (s, cache)"
    by (cases "applyEnv g (srvCfg, globalServerCredCache g)")
  show ?thesis
  proof (cases "globalIsStorageClass g")
    case True
    with assms Inr env show ?thesis
      by (auto simp: loadConfig_def Let_def split: if_splits)
  next
    case False
    with assms Inr env show ?thesis
      by (auto simp: loadConfig_def Let_def split: option.splits if_splits
            dest!: GetStorageClass_frame)
  qed
qed

text \<open>
  C2, as the code has it. Every cache entry that is a valid credential is stored under
  its own access key and is the root credential or a value of the bucket map. The
  operations that touch the cache preserve this: \<open>SetCredentialForBucket\<close> on a non-empty
  bucket name (its eviction and its insertion), the insertion \<open>GetCredentialForKey\<close>
  makes after a scan, and the publication of a store by \<open>newConfig\<close> and \<open>loadConfig\<close>,
  which empties the cache (a \<open>loadConfig\<close> that fails leaves store and cache as they
  were). Entries that are invalid credentials are not covered: the eviction is guarded
  by \<open>IsValid\<close>, and the resolver does not answer from them.
\<close>

theorem cache_invariant_preserved:
  "(validEntriesCurrent fmt (s, cache) \<and> bucket \<noteq> [] \<longrightarrow>
      validEntriesCurrent fmt (snd (SetCredentialForBucket fmt bucket creds (s, cache))))
   \<and> (validEntriesCurrent fmt (s, cache) \<and> rangeOrder es (entries (Bucket s)) \<longrightarrow>
      validEntriesCurrent fmt (s, snd (GetCredentialForKey fmt es key (s, cache))))
   \<and> publishedConsistent fmt (snd (newConfig c g))
   \<and> (\<forall>res g'. publishedConsistent fmt g \<and> loadConfig c g = Some (res, g') \<longrightarrow>
      publishedConsistent fmt g')"
proof (intro conjI impI allI)
  assume "validEntriesCurrent fmt (s, cache) \<and> bucket \<noteq> []"
  then show "validEntriesCurrent fmt (snd (SetCredentialForBucket fmt bucket creds (s, cache)))"
    by (simp add: validEntriesCurrent_SetCredentialForBucket)
next
  assume "validEntriesCurrent fmt (s, cache) \<and> rangeOrder es (entries (Bucket s))"
  then show "validEntriesCurrent fmt (s, snd (GetCredentialForKey fmt es key (s, cache)))"
    by (simp add: validEntriesCurrent_GetCredentialForKey)
next
  obtain s' where "globalServerConfig (snd (newConfig c g)) = Some s'"
    and "globalServerCredCache (snd (newConfig c g)) = Map.empty"
    using newConfig_publishes by blast
  then show "publishedConsistent fmt (snd (newConfig c g))"
    by (simp add: publishedConsistent_def validEntriesCurrent_empty)
next
  fix res g'
  assume a: "publishedConsistent fmt g \<and> loadConfig c g = Some (res, g')"
  then consider "g' = g"
    | s' where "globalServerConfig g' = Some s'" "globalServerCredCache g' = Map.empty"
    using loadConfig_publishes[of c g res g'] by blast
  then show "publishedConsistent fmt g'"
  proof cases
    case 1
    with a show ?thesis by simp
  next
    case 2
    then show ?thesis by (simp add: publishedConsistent_def validEntriesCurrent_empty)
  qed
qed

text \<open>
  The theorem at a store whose bucket \<open>b1\<close> holds the cached \<open>credA\<close>: overwriting the
  bucket with \<open>credB\<close>, resolving the key of \<open>credA\<close>, a \<open>newConfig\<close> and a \<open>loadConfig\<close>
  that fails to read its file all end in a consistent state.
\<close>

theorem cache_invariant_preserved_witness:
  "validEntriesCurrent lengthFormat
      (exampleStore\<lparr>Bucket := Some [''b1'' \<mapsto> credA]\<rparr>, [''accessA'' \<mapsto> credA])
   \<and> ''b1'' \<noteq> []
   \<and> validEntriesCurrent lengthFormat
       (snd (SetCredentialForBucket lengthFormat ''b1'' credB
          (exampleStore\<lparr>Bucket := Some [''b1'' \<mapsto> credA]\<rparr>, [''accessA'' \<mapsto> credA])))
   \<and> rangeOrder [(''b1'', credA)] (entries (Bucket (exampleStore\<lparr>Bucket := Some [''b1'' \<mapsto> credA]\<rparr>)))
   \<and> validEntriesCurrent lengthFormat
       (exampleStore\<lparr>Bucket := Some [''b1'' \<mapsto> credA]\<rparr>,
        snd (GetCredentialForKey lengthFormat [(''b1'', credA)] ''accessA''
          (exampleStore\<lparr>Bucket := Some [''b1'' \<mapsto> credA]\<rparr>, [''accessA'' \<mapsto> credA])))
   \<and> publishedConsistent lengthFormat
       (snd (newConfig (exampleCollaborators (Inl ''no such file'')) exampleGlobals))
   \<and> publishedConsistent lengthFormat exampleGlobals
   \<and> loadConfig (exampleCollaborators (Inl ''no such file'')) exampleGlobals
       = Some (Some ''no such file'', exampleGlobals)"
proof -
  let ?s = "exampleStore\<lparr>Bucket := Some [''b1'' \<mapsto> credA]\<rparr>"
  let ?cache = "[''accessA'' \<mapsto> credA]"
  have inv: "validEntriesCurrent lengthFormat (?s, ?cache)"
    by (rule validEntriesCurrentI) (auto simp: ran_def example_defs split: if_splits)
  have ne: "''b1'' \<noteq> []" by simp
  have ord: "rangeOrder [(''b1'', credA)] (entries (Bucket ?s))"
    by (simp add: rangeOrder_def entries_def)
  have pub: "publishedConsistent lengthFormat exampleGlobals"
    using inv by (simp add: publishedConsistent_def exampleGlobals_def)
  have load: "loadConfig (exampleCollaborators (Inl ''no such file'')) exampleGlobals
       = Some (Some ''no such file'', exampleGlobals)"
    by (simp add: loadConfig_def getValidConfig_def exampleCollaborators_def Let_def)
  note inst = cache_invariant_preserved[of lengthFormat ?s ?cache "''b1''" credB
      "[(''b1'', credA)]" "''accessA''" "exampleCollaborators (Inl ''no such file'')"
      exampleGlobals]
  show ?thesis
    using inst inv ne ord pub load by blast
qed

text \<open>
  The invariant as the specification states it, for every entry of the cache, is not
  preserved by \<open>SetCredentialForBucket\<close>. From the example store and an empty cache,
  setting bucket \<open>b1\<close> to the invalid \<open>credI\<close> keeps it; setting the bucket then to \<open>credB\<close>
  does not evict \<open>credI\<close>, which is no longer a value of the bucket map.
\<close>

theorem cacheConsistent_counterexample:
  "cacheConsistent (exampleStore, Map.empty)
   \<and> ''b1'' \<noteq> []
   \<and> cacheConsistent
       (snd (SetCredentialForBucket lengthFormat ''b1'' credI (exampleStore, Map.empty)))
   \<and> \<not> cacheConsistent
       (snd (SetCredentialForBucket lengthFormat ''b1'' credB
          (snd (SetCredentialForBucket lengthFormat ''b1'' credI (exampleStore, Map.empty)))))"
proof -
  have first: "snd (SetCredentialForBucket lengthFormat ''b1'' credI (exampleStore, Map.empty))
      = (exampleStore\<lparr>Bucket := Some [''b1'' \<mapsto> credI]\<rparr>, [''accessI'' \<mapsto> credI])"
    by (simp add: SetCredentialForBucket_def Let_def example_defs)
  have second: "snd (SetCredentialForBucket lengthFormat ''b1'' credB
        (exampleStore\<lparr>Bucket := Some [''b1'' \<mapsto> credI]\<rparr>, [''accessI'' \<mapsto> credI]))
      = (exampleStore\<lparr>Bucket := Some [''b1'' \<mapsto> credB]\<rparr>,
         [''accessI'' \<mapsto> credI, ''accessB'' \<mapsto> credB])"
    by (simp add: SetCredentialForBucket_def Let_def example_defs)
  have before: "cacheConsistent (exampleStore\<lparr>Bucket := Some [''b1'' \<mapsto> credI]\<rparr>,
      [''accessI'' \<mapsto> credI])"
    by (auto simp: cacheConsistent_def entries_def ran_def split: if_splits)
  have stale: "[''accessI'' \<mapsto> credI, ''accessB'' \<mapsto> credB] ''accessI'' = Some credI"
    by simp
  have "credI \<noteq> Credential (exampleStore\<lparr>Bucket := Some [''b1'' \<mapsto> credB]\<rparr>)"
    and "credI \<notin> ran (entries (Bucket (exampleStore\<lparr>Bucket := Some [''b1'' \<mapsto> credB]\<rparr>)))"
    by (simp_all add: example_defs)
  with stale have after: "\<not> cacheConsistent (exampleStore\<lparr>Bucket := Some [''b1'' \<mapsto> credB]\<rparr>,
      [''accessI'' \<mapsto> credI, ''accessB'' \<mapsto> credB])"
    unfolding cacheConsistent_def by blast
  show ?thesis
    unfolding first second using before after by (simp add: cacheConsistent_def)
qed


section \<open>Properties of the JSON scope validator\<close>

lemma increment_fresh: "k \<notin> fst ` set occ \<Longrightarrow> increment k occ = occ @ [(k, 1)]"
  by (induction k occ rule: increment.induct) auto

lemma duplicated_None: "duplicated occ = None \<longleftrightarrow> (\<forall>(k, n) \<in> set occ. n \<le> 1)"
  by (induction occ rule: duplicated.induct) auto

lemma duplicated_single: "set occ = {(k, n)} \<Longrightarrow> 1 < n \<Longrightarrow> duplicated occ = Some k"
  by (cases occ) auto

lemma countKeys_members:
  "distinct (map fst members) \<Longrightarrow> fst ` set occ \<inter> fst ` set members = {} \<Longrightarrow>
   countKeys (map (\<lambda>(k, v). (KString k, v)) members) occ = occ @ map (\<lambda>(k, v). (k, 1)) members"
proof (induction members arbitrary: occ)
  case Nil
  then show ?case by simp
next
  case (Cons m members)
  obtain k v where m: "m = (k, v)" by (cases m)
  from Cons.prems m have fresh: "k \<notin> fst ` set occ" by auto
  have "fst ` set (occ @ [(k, 1)]) \<inter> fst ` set members = {}"
    using Cons.prems m by auto
  moreover have "distinct (map fst members)" using Cons.prems by simp
  ultimately have "countKeys (map (\<lambda>(k, v). (KString k, v)) members) (occ @ [(k, 1)])
      = (occ @ [(k, 1)]) @ map (\<lambda>(k, v). (k, 1)) members"
    by (rule Cons.IH[rotated])
  then show ?case using m fresh by (simp add: increment_fresh)
qed

lemma countKeys_items: "countKeys (map (\<lambda>v. (KNull, v)) items) occ = occ"
  by (induction items) simp_all

lemma countKeys_ForEach_le:
  assumes "scopesDistinct v"
  shows "\<forall>(k, n) \<in> set (countKeys (ForEach v) []). n \<le> 1"
proof (cases v)
  case (JObject members)
  with assms have "distinct (map fst members)" by simp
  then have "countKeys (map (\<lambda>(k, v). (KString k, v)) members) []
      = [] @ map (\<lambda>(k, v). (k, 1)) members"
    by (rule countKeys_members) simp
  then show ?thesis using JObject by auto
next
  case (JArray items)
  then show ?thesis by (simp add: countKeys_items)
qed simp_all

lemma scopesDistinct_ForEach:
  "scopesDistinct v \<Longrightarrow> (k, w) \<in> set (ForEach v) \<Longrightarrow> k \<noteq> KNull \<Longrightarrow> scopesDistinct w"
  by (cases v) (auto simp: list_all_iff)

lemma accepts_distinct:
  "rangeChoice ord \<Longrightarrow> scopesDistinct value \<Longrightarrow> doCheckDupJSONKeys ord key value = None"
  "rangeChoice ord \<Longrightarrow> \<forall>(k, v) \<in> set kvs. k \<noteq> KNull \<longrightarrow> scopesDistinct v \<Longrightarrow>
     snd st = None \<Longrightarrow> iterator ord kvs st = (countKeys kvs (fst st), None)"
proof (induction ord key "value" and ord kvs st rule: doCheckDupJSONKeys_iterator.induct)
  case (1 ord key "value")
  have "\<forall>(k, v) \<in> set (ForEach value). k \<noteq> KNull \<longrightarrow> scopesDistinct v"
    using scopesDistinct_ForEach[OF "1.prems"(2)] by blast
  with "1.IH" "1.prems"(1)
  have it: "iterator ord (ForEach value) ([], None) = (countKeys (ForEach value) [], None)"
    by simp
  have "\<forall>(k, n) \<in> set (ord (countKeys (ForEach value) [])). n \<le> 1"
    using countKeys_ForEach_le[OF "1.prems"(2)] "1.prems"(1) by (simp add: rangeChoice_def)
  then have "duplicated (ord (countKeys (ForEach value) [])) = None"
    by (simp add: duplicated_None)
  with it show ?case by (simp add: doCheckDupJSONKeys.simps)
next
  case (2 ord st)
  then show ?case by (cases st) simp
next
  case (3 ord k v rest keysOcc checkErr)
  from "3.prems" have none: "checkErr = None" by simp
  show ?case
  proof (cases "k = KNull")
    case True
    with "3.IH"(3) "3.prems" none show ?thesis by simp
  next
    case False
    with "3.prems" have "scopesDistinct v" by simp
    with "3.IH"(1) False "3.prems"(1) have ok: "doCheckDupJSONKeys ord k v = None" by simp
    with "3.IH"(2)[OF False ok] "3.prems" False show ?thesis by simp
  qed
qed

lemma rangeChoice_id: "rangeChoice id"
  by (simp add: rangeChoice_def)

text \<open>
  C5. \<open>checkDupJSONKeys\<close> accepts every document in which no object has two members of
  the same name, whatever the nesting; it accepts the document
  \<^verbatim>\<open>{"a": {"x":1}, "b": {"x":1}}\<close>, where the name \<open>x\<close> is used in two scopes; and it
  rejects \<^verbatim>\<open>{"a": {"x":1, "x":2}}\<close> with a message that names the key \<open>x\<close> under the
  scope \<open>a\<close>. This holds for every order \<open>ord\<close> in which the last loop may visit the
  occurrence counts.
\<close>

theorem checkDupJSONKeys_scope_local:
  assumes "rangeChoice ord"
  shows "(\<forall>config. scopesDistinct config \<longrightarrow> checkDupJSONKeys ord rootName config = None)
       \<and> checkDupJSONKeys ord rootName
           (JObject [(''a'', JObject [(''x'', JNumber ''1'')]),
                     (''b'', JObject [(''x'', JNumber ''1'')])]) = None
       \<and> checkDupJSONKeys ord rootName
           (JObject [(''a'', JObject [(''x'', JNumber ''1''), (''x'', JNumber ''2'')])])
         = Some (rootName @ '' => a => `x` entry is duplicated'')"
proof (intro conjI allI impI)
  fix config
  assume "scopesDistinct config"
  then show "checkDupJSONKeys ord rootName config = None"
    using assms by (simp add: checkDupJSONKeys_def accepts_distinct(1))
next
  have "scopesDistinct (JObject [(''a'', JObject [(''x'', JNumber ''1'')]),
                     (''b'', JObject [(''x'', JNumber ''1'')])])"
    by simp
  then show "checkDupJSONKeys ord rootName
           (JObject [(''a'', JObject [(''x'', JNumber ''1'')]),
                     (''b'', JObject [(''x'', JNumber ''1'')])]) = None"
    using assms by (simp add: checkDupJSONKeys_def accepts_distinct(1))
next
  have "set (ord [(''x'', 2)]) = {(''x'', 2)}"
    using assms by (simp add: rangeChoice_def)
  then have dup: "duplicated (ord [(''x'', 2)]) = Some ''x''"
    by (rule duplicated_single) simp
  have scalar: "doCheckDupJSONKeys ord k (JNumber n) = None" for k n
    using assms by (simp add: accepts_distinct(1))
  have inner: "doCheckDupJSONKeys ord (KString ''a'')
                 (JObject [(''x'', JNumber ''1''), (''x'', JNumber ''2'')])
               = Some (''a => `x` entry is duplicated'')"
    using dup scalar by (simp add: doCheckDupJSONKeys.simps[of _ _ "JObject _"])
  show "checkDupJSONKeys ord rootName
           (JObject [(''a'', JObject [(''x'', JNumber ''1''), (''x'', JNumber ''2'')])])
         = Some (rootName @ '' => a => `x` entry is duplicated'')"
    using inner
    by (simp add: checkDupJSONKeys_def doCheckDupJSONKeys.simps[of _ "KString rootName"])
qed

text \<open>
  The theorem with the loop visiting the counts in the order they were inserted, for the
  root key \<^verbatim>\<open>config.json\<close>.
\<close>

theorem checkDupJSONKeys_scope_local_witness:
  "rangeChoice id
   \<and> scopesDistinct (JObject [(''version'', JString ''23'')])
   \<and> checkDupJSONKeys id ''config.json'' (JObject [(''version'', JString ''23'')]) = None
   \<and> checkDupJSONKeys id ''config.json''
           (JObject [(''a'', JObject [(''x'', JNumber ''1''), (''x'', JNumber ''2'')])])
         = Some ''config.json => a => `x` entry is duplicated''"
  using checkDupJSONKeys_scope_local[OF rangeChoice_id, of "''config.json''"]
  by (simp add: rangeChoice_id)

lemma array_unchecked:
  assumes "rangeChoice ord"
  shows "doCheckDupJSONKeys ord key (JArray items) = None"
proof -
  have "iterator ord (map (\<lambda>v. (KNull, v)) items) (occ, None) = (occ, None)" for occ
    by (induction items) simp_all
  moreover have "set (ord []) = {}" using assms by (simp add: rangeChoice_def)
  then have "ord [] = []" by simp
  moreover note doCheckDupJSONKeys.simps[of ord key "JArray items"]
  ultimately show ?thesis by simp
qed

text \<open>
  C6 does not hold of the code. The iterator is called for an element of an array with
  a key whose Type is Null, and the closure recurses only when the key is not Null: the
  elements of an array are never examined. An object with a repeated key inside an
  array is accepted.
\<close>

theorem checkDupJSONKeys_array_unchecked:
  "checkDupJSONKeys id ''config.json''
     (JObject [(''a'', JArray [JObject [(''x'', JNumber ''1''), (''x'', JNumber ''2'')]])])
   = None"
proof -
  have "doCheckDupJSONKeys id (KString ''a'')
          (JArray [JObject [(''x'', JNumber ''1''), (''x'', JNumber ''2'')]]) = None"
    using rangeChoice_id by (rule array_unchecked)
  then show ?thesis
    by (simp add: checkDupJSONKeys_def doCheckDupJSONKeys.simps[of _ "KString ''config.json''"])
qed



section \<open>A reload that fails\<close>

text \<open>
  C4. When \<open>getValidConfig\<close> returns an error, \<open>loadConfig\<close> returns that same error and
  the globals (the published store, the credential cache, the mirrored variables) are
  as before. And \<open>getValidConfig\<close> returns an error in each of these cases, in this
  order: \<^verbatim>\<open>quick.Load\<close> fails (its error); the loaded version is not the expected one (the
  version-mismatch error); reading the file fails (its error); \<open>checkDupJSONKeys\<close> finds
  a duplicate key (its error); the root credential is invalid while the credentials do
  not come from the environment (the invalid-credential error); the validation of the
  notification block fails (its error).
\<close>

theorem loadConfig_failure:
  "(\<forall>err. getValidConfig c g = Inl err \<longrightarrow> loadConfig c g = Some (Some err, g))
   \<and> (\<forall>err. quickLoad c (getConfigFile c) (blankConfig c) = Inl err \<longrightarrow>
         getValidConfig c g = Inl err)
   \<and> (\<forall>srvCfg. quickLoad c (getConfigFile c) (blankConfig c) = Inr srvCfg \<longrightarrow>
         (Version srvCfg \<noteq> serverConfigVersion \<longrightarrow>
            getValidConfig c g = Inl (versionMismatch serverConfigVersion (Version srvCfg)))
       \<and> (Version srvCfg = serverConfigVersion \<longrightarrow>
            (\<forall>err. ioutilReadFile c (getConfigFile c) = Inl err \<longrightarrow>
               getValidConfig c g = Inl err)
          \<and> (\<forall>jsonBytes. ioutilReadFile c (getConfigFile c) = Inr jsonBytes \<longrightarrow>
               (\<forall>err. checkDupJSONKeys (rangeKeysOcc c) (minioConfigFile c)
                        (gjsonParse c jsonBytes) = Some err \<longrightarrow>
                  getValidConfig c g = Inl err)
             \<and> (checkDupJSONKeys (rangeKeysOcc c) (minioConfigFile c)
                        (gjsonParse c jsonBytes) = None \<longrightarrow>
                  (\<not> globalIsEnvCreds g
                     \<and> \<not> IsValid (credentialFormat c) (Credential srvCfg) \<longrightarrow>
                     getValidConfig c g
                       = Inl (''invalid credential in config file '' @ getConfigFile c))
                \<and> (\<not> (\<not> globalIsEnvCreds g
                         \<and> \<not> IsValid (credentialFormat c) (Credential srvCfg)) \<longrightarrow>
                     (\<forall>err. notifyValidate c (Notify srvCfg) = Some err \<longrightarrow>
                        getValidConfig c g = Inl err))))))"
  by (simp add: loadConfig_def getValidConfig_def Let_def)

lemma checkDupJSONKeys_empty: "checkDupJSONKeys id root (JObject []) = None"
  by (simp add: checkDupJSONKeys_def doCheckDupJSONKeys.simps)

lemma checkDupJSONKeys_twice:
  "checkDupJSONKeys id ''config.json''
     (JObject [(''version'', JString ''23''), (''version'', JString ''24'')])
   = Some ''config.json => `version` entry is duplicated''"
  by (simp add: checkDupJSONKeys_def doCheckDupJSONKeys.simps)

text \<open>
  The theorem at five failing reloads of the example globals: the file cannot be
  loaded; it has version 22; it repeats the key \<open>version\<close>; its root credential is
  invalid; its notification block is rejected. Each returns its error and the globals
  unchanged.
\<close>

theorem loadConfig_failure_witness:
  "loadConfig (exampleCollaborators (Inl ''no such file'')) exampleGlobals
     = Some (Some ''no such file'', exampleGlobals)
   \<and> loadConfig (exampleCollaborators (Inr (exampleStore\<lparr>Version := ''22''\<rparr>))) exampleGlobals
     = Some (Some (versionMismatch ''23'' ''22''), exampleGlobals)
   \<and> loadConfig
       ((exampleCollaborators (Inr exampleStore))
          \<lparr>gjsonParse := (\<lambda>text.
             JObject [(''version'', JString ''23''), (''version'', JString ''24'')])\<rparr>)
       exampleGlobals
     = Some (Some ''config.json => `version` entry is duplicated'', exampleGlobals)
   \<and> loadConfig (exampleCollaborators (Inr (exampleStore\<lparr>Credential := credI\<rparr>)))
       exampleGlobals
     = Some (Some ''invalid credential in config file /etc/minio/config.json'',
             exampleGlobals)
   \<and> loadConfig
       ((exampleCollaborators (Inr exampleStore))
          \<lparr>notifyValidate := (\<lambda>n. Some ''notify: nil'')\<rparr>)
       exampleGlobals
     = Some (Some ''notify: nil'', exampleGlobals)"
proof -
  let ?c1 = "exampleCollaborators (Inl ''no such file'')"
  let ?c2 = "exampleCollaborators (Inr (exampleStore\<lparr>Version := ''22''\<rparr>))"
  let ?c3 = "(exampleCollaborators (Inr exampleStore))
          \<lparr>gjsonParse := (\<lambda>text.
             JObject [(''version'', JString ''23''), (''version'', JString ''24'')])\<rparr>"
  let ?c4 = "exampleCollaborators (Inr (exampleStore\<lparr>Credential := credI\<rparr>))"
  let ?c5 = "(exampleCollaborators (Inr exampleStore))
          \<lparr>notifyValidate := (\<lambda>n. Some ''notify: nil'')\<rparr>"
  have g1: "getValidConfig ?c1 exampleGlobals = Inl ''no such file''"
    by (simp add: getValidConfig_def exampleCollaborators_def Let_def)
  have g2: "getValidConfig ?c2 exampleGlobals = Inl (versionMismatch ''23'' ''22'')"
    by (simp add: getValidConfig_def exampleCollaborators_def Let_def serverConfigVersion_def
        exampleStore_def)
  have g3: "getValidConfig ?c3 exampleGlobals
      = Inl ''config.json => `version` entry is duplicated''"
    by (simp add: getValidConfig_def exampleCollaborators_def Let_def serverConfigVersion_def
        exampleStore_def checkDupJSONKeys_twice)
  have g4: "getValidConfig ?c4 exampleGlobals
      = Inl ''invalid credential in config file /etc/minio/config.json''"
    by (simp add: getValidConfig_def exampleCollaborators_def Let_def serverConfigVersion_def
        exampleGlobals_def checkDupJSONKeys_empty example_defs)
  have g5: "getValidConfig ?c5 exampleGlobals = Inl ''notify: nil''"
    by (simp add: getValidConfig_def exampleCollaborators_def Let_def serverConfigVersion_def
        exampleGlobals_def checkDupJSONKeys_empty example_defs)
  have run: "loadConfig c exampleGlobals = Some (Some err, exampleGlobals)"
    if "getValidConfig c exampleGlobals = Inl err" for c :: "unit collaborators" and err
    using loadConfig_failure[of c exampleGlobals] that by blast
  show ?thesis
    using run[OF g1] run[OF g2] run[OF g3] run[OF g4] run[OF g5] by simp
qed

end
